theory Spec2Isabelle
  imports Main "HOL-Library.AList" "HOL-Library.Sublist"
begin

section \<open>Go values used by the request logger\<close>

text \<open>
  A Go \<^verbatim>\<open>string\<close> and a \<^verbatim>\<open>[]byte\<close> are both byte sequences; the logger only ever
  converts a body with \<^verbatim>\<open>string(body)\<close>, a byte-for-byte copy, so both are modelled by
  \<^typ>\<open>string\<close>. A run-time panic is a value: calling a method through a nil interface or
  reading a field through a nil pointer gives \<open>NilDereference\<close>, an explicit
  \<^verbatim>\<open>panic(msg)\<close> gives \<open>Panic msg\<close>.
\<close>

datatype panic = NilDereference | Panic string

type_synonym addr = nat

subsection \<open>Storage of header maps\<close>

text \<open>
  \<^verbatim>\<open>http.Header\<close> is \<^verbatim>\<open>map[string][]string\<close>: a reference to a map object whose values
  are slices, each a window (array, offset, length, capacity) on a backing array of
  strings. Map objects and backing arrays live in a store; an address is an index into
  it and allocation appends. A map object is kept as an association list whose order is
  the order in which \<^verbatim>\<open>range\<close> visits it.
\<close>

record slice =
  sl_arr :: addr
  sl_off :: nat
  sl_len :: nat
  sl_cap :: nat

datatype mapref = NilMap | MapRef addr

record hheap =
  hmaps :: "(string \<times> slice) list list"
  harrays :: "string list list"

definition map_entries :: "hheap \<Rightarrow> mapref \<Rightarrow> (string \<times> slice) list" where
  "map_entries h r = (case r of NilMap \<Rightarrow> [] | MapRef a \<Rightarrow> hmaps h ! a)"

definition slice_elems :: "hheap \<Rightarrow> slice \<Rightarrow> string list" where
  "slice_elems h s = take (sl_len s) (drop (sl_off s) (harrays h ! sl_arr s))"

text \<open>The value a reader of the header map sees: every key with its sequence of strings.\<close>

definition header_value :: "hheap \<Rightarrow> mapref \<Rightarrow> (string \<times> string list) list" where
  "header_value h r = map (\<lambda>(k, s). (k, slice_elems h s)) (map_entries h r)"

text \<open>\<^verbatim>\<open>make(map[string][]string, n)\<close>: a new, empty map object.\<close>

definition make_map :: "hheap \<Rightarrow> addr \<times> hheap" where
  "make_map h = (length (hmaps h), h\<lparr>hmaps := hmaps h @ [[]]\<rparr>)"

text \<open>\<^verbatim>\<open>make([]string, n, n)\<close>: a new backing array of \<open>n\<close> empty strings.\<close>

definition make_slice :: "nat \<Rightarrow> hheap \<Rightarrow> slice \<times> hheap" where
  "make_slice n h =
     (\<lparr>sl_arr = length (harrays h), sl_off = 0, sl_len = n, sl_cap = n\<rparr>,
      h\<lparr>harrays := harrays h @ [replicate n '''']\<rparr>)"

text \<open>\<^verbatim>\<open>m[k] = v\<close> and \<^verbatim>\<open>delete(m, k)\<close> on the map object at address \<open>a\<close>.\<close>

definition map_store :: "addr \<Rightarrow> string \<Rightarrow> slice \<Rightarrow> hheap \<Rightarrow> hheap" where
  "map_store a k v h = h\<lparr>hmaps := (hmaps h)[a := AList.update k v (hmaps h ! a)]\<rparr>"

definition map_delete :: "addr \<Rightarrow> string \<Rightarrow> hheap \<Rightarrow> hheap" where
  "map_delete a k h = h\<lparr>hmaps := (hmaps h)[a := AList.delete k (hmaps h ! a)]\<rparr>"

text \<open>
  \<^verbatim>\<open>copy(dst, src)\<close>: the first \<open>min (len dst) (len src)\<close> elements of \<open>src\<close>, read
  before anything is written, replace those of \<open>dst\<close> in its backing array.
\<close>

definition copy_slice :: "slice \<Rightarrow> slice \<Rightarrow> hheap \<Rightarrow> hheap" where
  "copy_slice dst src h =
     (let n = min (sl_len dst) (sl_len src);
          xs = take n (slice_elems h src);
          a = harrays h ! sl_arr dst
      in h\<lparr>harrays := (harrays h)[sl_arr dst :=
              take (sl_off dst) a @ xs @ drop (sl_off dst + n) a]\<rparr>)"

text \<open>\<^verbatim>\<open>s[i] = x\<close>; out of range Go panics and nothing is written.\<close>

definition slice_store :: "slice \<Rightarrow> nat \<Rightarrow> string \<Rightarrow> hheap \<Rightarrow> hheap" where
  "slice_store s i x h =
     (if i < sl_len s
      then h\<lparr>harrays := (harrays h)[sl_arr s := (harrays h ! sl_arr s)[sl_off s + i := x]]\<rparr>
      else h)"

section \<open>Filters and options\<close>

text \<open>
  \<^verbatim>\<open>LogBodyFilter\<close> and \<^verbatim>\<open>LogHeadersFilter\<close> are interface values: \<open>None\<close> is the nil
  interface, \<open>Some f\<close> holds an implementation. A body filter maps the bytes it is given
  to the bytes to log. A headers filter receives a reference to a map and may change
  that map in place or build another one, so it is a function on the header store that
  returns the reference to log. \<^verbatim>\<open>Logger\<close> is an interface value too; \<open>'l\<close> names the
  sink behind it. \<open>'c\<close> is \<^verbatim>\<open>context.Context\<close>. Filters and sinks are code of the
  package's users: a call of an implementation is taken to return.
\<close>

type_synonym 'c body_filter = "'c \<Rightarrow> string \<Rightarrow> string"

type_synonym 'c headers_filter = "'c \<Rightarrow> mapref \<Rightarrow> hheap \<Rightarrow> mapref \<times> hheap"

record ('c, 'l) RequestLoggerOpts =
  LogBodyFilter :: "'c body_filter option"
  LogHeadersFilter :: "'c headers_filter option"
  Logger :: "'l option"
  Disable :: bool

text \<open>The zero value \<^verbatim>\<open>RequestLoggerOpts{}\<close>.\<close>

definition zero_opts :: "('c, 'l) RequestLoggerOpts" where
  "zero_opts = \<lparr>LogBodyFilter = None, LogHeadersFilter = None, Logger = None, Disable = False\<rparr>"

text \<open>
  Option structs are shared through pointers (\<^verbatim>\<open>*RequestLoggerOpts\<close>): \<open>opt_store\<close> is
  the memory holding them, a pointer is an index into it, \<^verbatim>\<open>&RequestLoggerOpts{...}\<close>
  appends a new struct. Go has no dangling pointers, so the pointers of a middleware or a
  wrapper are indices below the length of the store; a theorem that depends on this says
  so. A middleware is always built by \<^verbatim>\<open>NewMiddleware\<close>, so its pointer is not nil.
\<close>

type_synonym ('c, 'l) opt_store = "('c, 'l) RequestLoggerOpts list"

record RequestLoggerMiddleware =
  mw_opts :: addr

record RequestLoggerWrapper =
  opts :: addr
  base_opts :: addr

text \<open>
  Method calls through the interface values (\<^verbatim>\<open>x.FilterBody(ctx, b)\<close>,
  \<^verbatim>\<open>x.FilterHeaders(ctx, h)\<close>): on the nil interface the call panics.
\<close>

definition FilterBody :: "'c body_filter option \<Rightarrow> 'c \<Rightarrow> string \<Rightarrow> panic + string" where
  "FilterBody x ctx b = (case x of None \<Rightarrow> Inl NilDereference | Some f \<Rightarrow> Inr (f ctx b))"

definition FilterHeaders ::
  "'c headers_filter option \<Rightarrow> 'c \<Rightarrow> mapref \<Rightarrow> hheap \<Rightarrow> (panic + mapref) \<times> hheap" where
  "FilterHeaders x ctx hdrs h =
     (case x of
        None \<Rightarrow> (Inl NilDereference, h)
      | Some f \<Rightarrow> (case f ctx hdrs h of (r, h') \<Rightarrow> (Inr r, h')))"

section \<open>The filter steps of a wrapper\<close>

text \<open>
  \<^verbatim>\<open>filterBody\<close>: the first test reads \<^verbatim>\<open>self.opts.LogBodyFilter\<close>, the second reads
  \<^verbatim>\<open>self.base_opts.LogBodyFilter\<close>, and both calls go through
  \<^verbatim>\<open>self.opts.LogBodyFilter\<close>.
\<close>

definition filterBody ::
  "('c, 'l) opt_store \<Rightarrow> RequestLoggerWrapper \<Rightarrow> 'c \<Rightarrow> string \<Rightarrow> panic + string" where
  "filterBody cfg self ctx body =
     (case (if LogBodyFilter (cfg ! opts self) \<noteq> None
            then FilterBody (LogBodyFilter (cfg ! opts self)) ctx body
            else Inr body) of
        Inl p \<Rightarrow> Inl p
      | Inr body1 \<Rightarrow>
          if LogBodyFilter (cfg ! base_opts self) \<noteq> None
          then FilterBody (LogBodyFilter (cfg ! opts self)) ctx body1
          else Inr body1)"

text \<open>
  The copying loop of \<^verbatim>\<open>filterHeaders\<close>: for every entry \<open>(k, v)\<close> of the live map a new
  slice of \<open>len v\<close> strings is made, stored under \<open>k\<close> in the new map and filled from
  \<open>v\<close>.
\<close>

definition copy_entry :: "addr \<Rightarrow> string \<Rightarrow> slice \<Rightarrow> hheap \<Rightarrow> hheap" where
  "copy_entry n k v h =
     (case make_slice (sl_len v) h of (s, h1) \<Rightarrow> copy_slice s v (map_store n k s h1))"

fun copy_entries :: "addr \<Rightarrow> (string \<times> slice) list \<Rightarrow> hheap \<Rightarrow> hheap" where
  "copy_entries n [] h = h"
| "copy_entries n ((k, v) # kvs) h = copy_entries n kvs (copy_entry n k v h)"

definition copy_headers :: "mapref \<Rightarrow> hheap \<Rightarrow> addr \<times> hheap" where
  "copy_headers hdrs h =
     (case make_map h of (n, h0) \<Rightarrow> (n, copy_entries n (map_entries h hdrs) h0))"

text \<open>The two filter steps that follow the copy, on the copy's reference.\<close>

definition apply_header_filters ::
  "('c, 'l) opt_store \<Rightarrow> RequestLoggerWrapper \<Rightarrow> 'c \<Rightarrow> mapref \<Rightarrow> hheap \<Rightarrow>
     (panic + mapref) \<times> hheap" where
  "apply_header_filters cfg self ctx n_hdrs h =
     (case (if LogHeadersFilter (cfg ! opts self) \<noteq> None
            then FilterHeaders (LogHeadersFilter (cfg ! opts self)) ctx n_hdrs h
            else (Inr n_hdrs, h)) of
        (Inl p, h1) \<Rightarrow> (Inl p, h1)
      | (Inr n1, h1) \<Rightarrow>
          if LogHeadersFilter (cfg ! base_opts self) \<noteq> None
          then FilterHeaders (LogHeadersFilter (cfg ! opts self)) ctx n1 h1
          else (Inr n1, h1))"

definition filterHeaders ::
  "('c, 'l) opt_store \<Rightarrow> RequestLoggerWrapper \<Rightarrow> 'c \<Rightarrow> mapref \<Rightarrow> hheap \<Rightarrow>
     (panic + mapref) \<times> hheap" where
  "filterHeaders cfg self ctx hdrs h =
     (case copy_headers hdrs h of
        (n, h1) \<Rightarrow> apply_header_filters cfg self ctx (MapRef n) h1)"

section \<open>Middleware, wrappers and their construction\<close>

text \<open>
  \<^verbatim>\<open>NewMiddleware(opts)\<close>: a nil pointer is replaced by a new zero struct; a nil logger in
  the struct pointed to is overwritten with the default stdout logger (a collaborator's
  value, given as the parameter \<open>DefaultStdoutCtxLogger\<close>).
\<close>

definition NewMiddleware ::
  "'l \<Rightarrow> ('c, 'l) opt_store \<Rightarrow> addr option \<Rightarrow> RequestLoggerMiddleware \<times> ('c, 'l) opt_store" where
  "NewMiddleware DefaultStdoutCtxLogger cfg p =
     (case (case p of None \<Rightarrow> (length cfg, cfg @ [zero_opts]) | Some a \<Rightarrow> (a, cfg)) of
        (a, cfg1) \<Rightarrow>
          (\<lparr>mw_opts = a\<rparr>,
           if Logger (cfg1 ! a) = None
           then cfg1[a := (cfg1 ! a)\<lparr>Logger := Some DefaultStdoutCtxLogger\<rparr>]
           else cfg1))"

text \<open>
  The variadic \<^verbatim>\<open>opts ...interface{}\<close> of \<^verbatim>\<open>NewWrapper\<close>: an argument either holds a
  \<^verbatim>\<open>*RequestLoggerOpts\<close> (possibly the nil pointer) or a value of another type. The loop
  stops at the first argument whose type assertion succeeds and keeps its pointer.
\<close>

datatype arg = OptsPtr "addr option" | OtherArg

fun resolve_opts :: "arg list \<Rightarrow> addr option" where
  "resolve_opts [] = None"
| "resolve_opts (OptsPtr p # rest) = p"
| "resolve_opts (OtherArg # rest) = resolve_opts rest"

definition NewWrapper ::
  "('c, 'l) opt_store \<Rightarrow> RequestLoggerMiddleware \<Rightarrow> 'c \<Rightarrow> arg list \<Rightarrow>
     RequestLoggerWrapper option \<times> ('c, 'l) opt_store" where
  "NewWrapper cfg self ctx args =
     (case (case resolve_opts args of
              None \<Rightarrow> (length cfg, cfg @ [zero_opts\<lparr>Logger := Logger (cfg ! mw_opts self)\<rparr>])
            | Some a \<Rightarrow> (a, cfg)) of
        (opt, cfg1) \<Rightarrow>
          if Disable (cfg1 ! opt) then (None, cfg1)
          else (Some \<lparr>opts = opt, base_opts = mw_opts self\<rparr>, cfg1))"

definition SetLogger ::
  "('c, 'l) opt_store \<Rightarrow> RequestLoggerMiddleware \<Rightarrow> 'l option \<Rightarrow>
     RequestLoggerMiddleware \<times> ('c, 'l) opt_store" where
  "SetLogger cfg self logger =
     (self, cfg[mw_opts self := (cfg ! mw_opts self)\<lparr>Logger := logger\<rparr>])"

section \<open>The wrapped handler\<close>

text \<open>
  What one request can observe and change: the route's full path, the inbound request
  (method, the URL value behind \<^verbatim>\<open>http_req.URL\<close>, the header map), what
  \<^verbatim>\<open>rctx.BodyCopy()\<close> returns, the response writer (status, header map, the copy of the
  bytes written) and the header store. \<open>'u\<close> is \<^verbatim>\<open>url.URL\<close>, \<open>'e\<close> is \<^verbatim>\<open>error\<close>.
\<close>

record ('u, 'e) world =
  route_FullPath :: string
  req_Method :: string
  req_URL :: 'u
  req_Header :: mapref
  BodyCopy :: "'e + string"
  writer_Status :: int
  writer_Header :: mapref
  ResponseCopy :: string
  store :: hheap

text \<open>The nested \<^verbatim>\<open>log_info\<close> map; \<open>'q\<close> is \<^verbatim>\<open>url.Values\<close>.\<close>

record 'q route_info =
  li_method :: string
  li_route :: string
  li_path :: string
  li_query :: 'q

record 'q request_info =
  rq_route :: "'q route_info"
  rq_headers :: mapref
  rq_body :: string

record response_info =
  rs_status :: int
  rs_headers :: mapref
  rs_body :: string

record 'q log_info =
  request :: "'q request_info"
  response :: "response_info option"

text \<open>
  Library functions the handler calls: \<^verbatim>\<open>URL.EscapedPath\<close>, \<^verbatim>\<open>URL.Query\<close>, the
  \<^verbatim>\<open>%+v\<close> rendering of an error, the JSON encoder with HTML escaping off (it reads the
  header maps the record refers to from the store, and its error is ignored) and
  \<^verbatim>\<open>strings.TrimSpace\<close>.
\<close>

record ('u, 'q, 'e) lib =
  EscapedPath :: "'u \<Rightarrow> string"
  Query :: "'u \<Rightarrow> 'q"
  Sprintf_v :: "'e \<Rightarrow> string"
  Encode :: "'q log_info \<Rightarrow> hheap \<Rightarrow> string"
  TrimSpace :: "string \<Rightarrow> string"

text \<open>
  What the wrapped handler does that others can see: calls of the log sink
  (\<open>LogDebug sink ctx prefix message\<close>) and the call of the downstream handler.
\<close>

datatype ('c, 'l) event = LogDebug 'l 'c string string | CallNext 'c

text \<open>
  \<^verbatim>\<open>api_router.RouteFn\<close>: a handler runs on the world and returns normally (\<open>None\<close>) or
  panics.
\<close>

type_synonym ('c, 'u, 'e) RouteFn = "'c \<Rightarrow> ('u, 'e) world \<Rightarrow> panic option \<times> ('u, 'e) world"

text \<open>\<^verbatim>\<open>x.LogDebug(ctx, prefix, msg)\<close> through the interface value \<open>x\<close>.\<close>

definition CallLogDebug ::
  "'l option \<Rightarrow> 'c \<Rightarrow> string \<Rightarrow> string \<Rightarrow> panic + ('c, 'l) event" where
  "CallLogDebug x ctx pfx msg =
     (case x of None \<Rightarrow> Inl NilDereference | Some l \<Rightarrow> Inr (LogDebug l ctx pfx msg))"

text \<open>
  The second half of the handler, from \<^verbatim>\<open>next(ctx)\<close> on; \<open>ev1\<close> is the log call
  already made, \<open>s1\<close> the world the downstream handler starts in.
\<close>

definition Wrap_after_request_log ::
  "('u, 'q, 'e) lib \<Rightarrow> ('c, 'l) opt_store \<Rightarrow> RequestLoggerWrapper \<Rightarrow> ('c, 'u, 'e) RouteFn \<Rightarrow>
     'c \<Rightarrow> 'q log_info \<Rightarrow> ('c, 'l) event \<Rightarrow> ('u, 'e) world \<Rightarrow>
     ('c, 'l) event list \<times> panic option \<times> ('u, 'e) world" where
  "Wrap_after_request_log lib cfg self next ctx log_info ev1 s1 =
     (case next ctx s1 of
        (Some p, s2) \<Rightarrow> ([ev1, CallNext ctx], Some p, s2)
      | (None, s2) \<Rightarrow>
          (case filterBody cfg self ctx (ResponseCopy s2) of
             Inl p \<Rightarrow> ([ev1, CallNext ctx], Some p, s2)
           | Inr body \<Rightarrow>
               (case filterHeaders cfg self ctx (writer_Header s2) (store s2) of
                  (Inl p, h3) \<Rightarrow> ([ev1, CallNext ctx], Some p, s2\<lparr>store := h3\<rparr>)
                | (Inr hdrs, h3) \<Rightarrow>
                    (case CallLogDebug (Logger (cfg ! opts self)) ctx ''Sent response:''
                            (TrimSpace lib
                               (Encode lib
                                  (log_info\<lparr>response := Some
                                     \<lparr>rs_status = writer_Status s2, rs_headers = hdrs,
                                      rs_body = body\<rparr>\<rparr>)
                                  h3)) of
                       Inl p \<Rightarrow> ([ev1, CallNext ctx], Some p, s2\<lparr>store := h3\<rparr>)
                     | Inr ev2 \<Rightarrow> ([ev1, CallNext ctx, ev2], None, s2\<lparr>store := h3\<rparr>)))))"

text \<open>
  \<^verbatim>\<open>Wrap(next)\<close> applied to a context. The receiver is a pointer and may be nil
  (\<open>None\<close>, what \<^verbatim>\<open>NewWrapper\<close> returns for a disabled override): the closure then
  panics at \<^verbatim>\<open>self.opts\<close>. The option structs are only read during a request.
\<close>

definition Wrap ::
  "('u, 'q, 'e) lib \<Rightarrow> ('c, 'l) opt_store \<Rightarrow> RequestLoggerWrapper option \<Rightarrow>
     ('c, 'u, 'e) RouteFn \<Rightarrow> 'c \<Rightarrow> ('u, 'e) world \<Rightarrow>
     ('c, 'l) event list \<times> panic option \<times> ('u, 'e) world" where
  "Wrap lib cfg self next ctx s =
     (case self of
        None \<Rightarrow> ([], Some NilDereference, s)
      | Some w \<Rightarrow>
          if Logger (cfg ! opts w) = None \<or> Disable (cfg ! opts w)
          then (case next ctx s of (p, s1) \<Rightarrow> ([CallNext ctx], p, s1))
          else
            (case BodyCopy s of
               Inl err \<Rightarrow> ([], Some (Panic (''Couldn't read body: '' @ Sprintf_v lib err)), s)
             | Inr body0 \<Rightarrow>
                 (let orig_url = req_URL s in
                  case filterBody cfg w ctx body0 of
                    Inl p \<Rightarrow> ([], Some p, s)
                  | Inr body \<Rightarrow>
                      (case filterHeaders cfg w ctx (req_Header s) (store s) of
                         (Inl p, h1) \<Rightarrow> ([], Some p, s\<lparr>store := h1\<rparr>)
                       | (Inr hdrs, h1) \<Rightarrow>
                           (let log_info =
                                  \<lparr>request =
                                     \<lparr>rq_route =
                                        \<lparr>li_method = req_Method s,
                                         li_route = route_FullPath s,
                                         li_path = EscapedPath lib orig_url,
                                         li_query = Query lib orig_url\<rparr>,
                                      rq_headers = hdrs,
                                      rq_body = body\<rparr>,
                                   response = None\<rparr>
                            in case CallLogDebug (Logger (cfg ! opts w)) ctx ''Received request:''
                                      (TrimSpace lib (Encode lib log_info h1)) of
                                 Inl p \<Rightarrow> ([], Some p, s\<lparr>store := h1\<rparr>)
                               | Inr ev1 \<Rightarrow>
                                   Wrap_after_request_log lib cfg w next ctx log_info ev1
                                     (s\<lparr>store := h1\<rparr>))))))"

section \<open>Storage shared between header maps\<close>

text \<open>
  A slice is valid in a store when its window lies inside an allocated backing array
  (a slice of capacity 0, such as the nil slice, has no window). A header reference is
  valid when it is nil or points to an allocated map object with distinct keys and valid
  slices.
\<close>

definition valid_slice :: "hheap \<Rightarrow> slice \<Rightarrow> bool" where
  "valid_slice h s \<longleftrightarrow>
     sl_len s \<le> sl_cap s \<and>
     (sl_cap s = 0 \<or>
      (sl_arr s < length (harrays h) \<and> sl_off s + sl_cap s \<le> length (harrays h ! sl_arr s)))"

definition valid_map :: "hheap \<Rightarrow> mapref \<Rightarrow> bool" where
  "valid_map h r =
     (case r of
        NilMap \<Rightarrow> True
      | MapRef a \<Rightarrow>
          a < length (hmaps h) \<and> distinct (map fst (hmaps h ! a)) \<and>
          list_all (\<lambda>(k, s). valid_slice h s) (hmaps h ! a))"

text \<open>
  \<open>extends h h'\<close>: every map object and every backing array of \<open>h\<close> is in \<open>h'\<close>,
  unchanged; \<open>h'\<close> may hold more. \<open>separate_from h0 r h\<close>: \<open>h\<close> extends \<open>h0\<close>, and
  the map \<open>r\<close> refers to and the backing arrays of its values were all allocated after
  \<open>h0\<close>, so \<open>r\<close> shares no storage with anything in \<open>h0\<close>. A headers filter is local
  when it keeps that: handed a map that shares nothing with an older store, it leaves the
  older store alone and returns a map that shares nothing with it (it may change the map
  it was handed in place, or build a new one).
\<close>

definition extends :: "hheap \<Rightarrow> hheap \<Rightarrow> bool" where
  "extends h h' \<longleftrightarrow> prefix (hmaps h) (hmaps h') \<and> prefix (harrays h) (harrays h')"

definition separate_from :: "hheap \<Rightarrow> mapref \<Rightarrow> hheap \<Rightarrow> bool" where
  "separate_from h0 r h \<longleftrightarrow>
     extends h0 h \<and>
     (case r of
        NilMap \<Rightarrow> True
      | MapRef a \<Rightarrow>
          length (hmaps h0) \<le> a \<and> a < length (hmaps h) \<and>
          list_all (\<lambda>(k, s). length (harrays h0) \<le> sl_arr s \<and> sl_arr s < length (harrays h))
            (hmaps h ! a))"

definition local_filter :: "'c headers_filter \<Rightarrow> bool" where
  "local_filter f \<longleftrightarrow>
     (\<forall>ctx h0 r h. separate_from h0 r h \<longrightarrow> (case f ctx r h of (r', h') \<Rightarrow> separate_from h0 r' h'))"

text \<open>
  The writes a holder of a header reference can make: \<^verbatim>\<open>m[k] = v\<close>,
  \<^verbatim>\<open>delete(m, k)\<close>, \<^verbatim>\<open>m[k][i] = x\<close> and \<^verbatim>\<open>m[k] = append(m[k], x)\<close> (what
  \<^verbatim>\<open>Header.Add\<close> does). \<^verbatim>\<open>append\<close> writes into the backing array when the capacity
  allows and moves the value to a new array otherwise (the capacity of the new array is
  the runtime's choice; the model takes the new length). Writes that panic in Go (through
  a nil map, at a missing key, out of range) leave the store as it is.
\<close>

datatype mutation =
  SetKey string slice | DeleteKey string | SetElem string nat string | Append string string

definition append_slice :: "addr \<Rightarrow> string \<Rightarrow> string \<Rightarrow> hheap \<Rightarrow> hheap" where
  "append_slice a k x h =
     (case map_of (hmaps h ! a) k of
        None \<Rightarrow>
          map_store a k \<lparr>sl_arr = length (harrays h), sl_off = 0, sl_len = 1, sl_cap = 1\<rparr>
            (h\<lparr>harrays := harrays h @ [[x]]\<rparr>)
      | Some s \<Rightarrow>
          if sl_len s < sl_cap s
          then map_store a k (s\<lparr>sl_len := sl_len s + 1\<rparr>)
                 (h\<lparr>harrays := (harrays h)[sl_arr s :=
                      (harrays h ! sl_arr s)[sl_off s + sl_len s := x]]\<rparr>)
          else map_store a k
                 \<lparr>sl_arr = length (harrays h), sl_off = 0, sl_len = sl_len s + 1,
                  sl_cap = sl_len s + 1\<rparr>
                 (h\<lparr>harrays := harrays h @ [slice_elems h s @ [x]]\<rparr>))"

definition mutate :: "mapref \<Rightarrow> mutation \<Rightarrow> hheap \<Rightarrow> hheap" where
  "mutate r m h =
     (case r of
        NilMap \<Rightarrow> h
      | MapRef a \<Rightarrow>
          (case m of
             SetKey k v \<Rightarrow> map_store a k v h
           | DeleteKey k \<Rightarrow> map_delete a k h
           | SetElem k i x \<Rightarrow>
               (case map_of (hmaps h ! a) k of
                  None \<Rightarrow> h
                | Some s \<Rightarrow> slice_store s i x h)
           | Append k x \<Rightarrow> append_slice a k x h))"

text \<open>
  The invariant of the copying loop: the new map \<open>n\<close> and every slice stored in it so far
  lie beyond the store \<open>h0\<close> the copy started from, and \<open>h0\<close> is intact.
\<close>

definition copying :: "hheap \<Rightarrow> addr \<Rightarrow> hheap \<Rightarrow> bool" where
  "copying h0 n h \<longleftrightarrow>
     extends h0 h \<and> length (hmaps h0) \<le> n \<and> n < length (hmaps h) \<and>
     list_all (\<lambda>(k, s). length (harrays h0) \<le> sl_arr s \<and> sl_arr s < length (harrays h) \<and>
                 sl_off s = 0 \<and> sl_len s \<le> length (harrays h ! sl_arr s)) (hmaps h ! n)"

section \<open>A concrete request\<close>

text \<open>
  The request \<^verbatim>\<open>GET /users/42?active=true\<close> with the headers \<^verbatim>\<open>Authorization\<close> and
  \<^verbatim>\<open>Accept\<close>, whose value slices are windows on one shared backing array (the second
  with room for one more element), a headers
  filter that deletes \<^verbatim>\<open>Authorization\<close> in place, and a handler that answers 404 and
  rewrites its own view of the URL. Contexts are \<^typ>\<open>unit\<close>, log sinks are named by
  strings, a URL is the pair of its escaped path and its raw query.
\<close>

definition ex_heap :: hheap where
  "ex_heap =
     \<lparr>hmaps = [[(''Authorization'', \<lparr>sl_arr = 0, sl_off = 0, sl_len = 1, sl_cap = 1\<rparr>),
                (''Accept'', \<lparr>sl_arr = 0, sl_off = 1, sl_len = 2, sl_cap = 3\<rparr>)]],
      harrays = [[''Bearer xyz'', ''text/html'', ''*/*'', '''']]\<rparr>"

definition redact_authorization :: "unit headers_filter" where
  "redact_authorization ctx r h = (r, mutate r (DeleteKey ''Authorization'') h)"

definition drop_headers :: "unit headers_filter" where
  "drop_headers ctx r h = (NilMap, h)"

definition exclaim :: "unit body_filter" where
  "exclaim ctx b = b @ ''!''"

definition mask :: "unit body_filter" where
  "mask ctx b = ''***''"

definition ex_base_plain :: "(unit, string) RequestLoggerOpts" where
  "ex_base_plain = \<lparr>LogBodyFilter = None, LogHeadersFilter = None, Logger = Some ''stdout'', Disable = False\<rparr>"

definition ex_base_filters :: "(unit, string) RequestLoggerOpts" where
  "ex_base_filters = \<lparr>LogBodyFilter = Some mask, LogHeadersFilter = Some drop_headers, Logger = Some ''stdout'', Disable = False\<rparr>"

definition ex_override :: "(unit, string) RequestLoggerOpts" where
  "ex_override = \<lparr>LogBodyFilter = Some exclaim, LogHeadersFilter = Some redact_authorization, Logger = Some ''audit'', Disable = False\<rparr>"

text \<open>
  A headers filter that ignores the copy it is handed: it works on the request's own
  header map (which a filter can reach through the context), deletes
  \<^verbatim>\<open>Authorization\<close> there and returns that map.
\<close>

definition redact_live :: "unit headers_filter" where
  "redact_live ctx r h = (MapRef 0, map_delete 0 ''Authorization'' h)"

definition ex_override_on_live :: "(unit, string) RequestLoggerOpts" where
  "ex_override_on_live =
     \<lparr>LogBodyFilter = None, LogHeadersFilter = Some redact_live, Logger = Some ''audit'',
      Disable = False\<rparr>"

definition ex_wrapper :: RequestLoggerWrapper where
  "ex_wrapper = \<lparr>opts = 1, base_opts = 0\<rparr>"

definition ex_override_no_logger :: "(unit, string) RequestLoggerOpts" where
  "ex_override_no_logger =
     \<lparr>LogBodyFilter = Some exclaim, LogHeadersFilter = None, Logger = None, Disable = False\<rparr>"

definition ex_override_disabled :: "(unit, string) RequestLoggerOpts" where
  "ex_override_disabled =
     \<lparr>LogBodyFilter = None, LogHeadersFilter = None, Logger = Some ''audit'', Disable = True\<rparr>"

definition ex_encode :: "string log_info \<Rightarrow> hheap \<Rightarrow> string" where
  "ex_encode li h =
     li_method (rq_route (request li)) @ '' '' @ li_path (rq_route (request li)) @ ''?'' @
     li_query (rq_route (request li)) @
     concat (map (\<lambda>(k, vs). '' '' @ k) (header_value h (rq_headers (request li)))) @
     '' '' @ rq_body (request li) @
     (case response li of None \<Rightarrow> [] | Some r \<Rightarrow> '' -> '' @ rs_body r) @ [CHR 0x0A]"

definition ex_trim :: "string \<Rightarrow> string" where
  "ex_trim s =
     rev (dropWhile (\<lambda>c. c = CHR '' '' \<or> c = CHR 0x0A)
       (rev (dropWhile (\<lambda>c. c = CHR '' '' \<or> c = CHR 0x0A) s)))"

definition ex_lib :: "(string \<times> string, string, string) lib" where
  "ex_lib = \<lparr>EscapedPath = fst, Query = snd, Sprintf_v = (\<lambda>e. e), Encode = ex_encode,
             TrimSpace = ex_trim\<rparr>"

definition ex_world :: "(string \<times> string, string) world" where
  "ex_world =
     \<lparr>route_FullPath = ''/users/:id'', req_Method = ''GET'',
      req_URL = (''/users/42'', ''active=true''), req_Header = MapRef 0,
      BodyCopy = Inr ''ping'', writer_Status = 200, writer_Header = NilMap,
      ResponseCopy = [], store = ex_heap\<rparr>"

definition ex_next :: "(unit, string \<times> string, string) RouteFn" where
  "ex_next ctx s =
     (None, s\<lparr>req_URL := (''/admin'', ''active=false''), writer_Status := 404,
               ResponseCopy := ''not found''\<rparr>)"

section \<open>The header store: growth, the copying loop, writes\<close>

lemma prefix_nth_eq: "prefix xs ys \<Longrightarrow> i < length xs \<Longrightarrow> ys ! i = xs ! i"
  by (auto elim!: prefixE simp: nth_append)

lemma prefix_list_update_beyond: "prefix xs ys \<Longrightarrow> length xs \<le> i \<Longrightarrow> prefix xs (ys[i := v])"
  by (auto elim!: prefixE simp: list_update_append)

lemma slice_elems_grow:
  assumes "prefix (harrays h) (harrays h')" "valid_slice h s"
  shows "slice_elems h' s = slice_elems h s"
proof (cases "sl_cap s = 0")
  case True
  with assms(2) show ?thesis by (simp add: valid_slice_def slice_elems_def)
next
  case False
  with assms(2) have "sl_arr s < length (harrays h)" by (simp add: valid_slice_def)
  with assms(1) have "harrays h' ! sl_arr s = harrays h ! sl_arr s"
    by (simp add: prefix_nth_eq)
  then show ?thesis by (simp add: slice_elems_def)
qed

lemma valid_slice_grow:
  assumes "prefix (harrays h) (harrays h')" "valid_slice h s"
  shows "valid_slice h' s"
proof (cases "sl_cap s = 0")
  case True
  with assms(2) show ?thesis by (simp add: valid_slice_def)
next
  case False
  with assms(2) have a: "sl_arr s < length (harrays h)" by (simp add: valid_slice_def)
  with assms(1) have "harrays h' ! sl_arr s = harrays h ! sl_arr s"
    by (simp add: prefix_nth_eq)
  moreover from assms(1) have "length (harrays h) \<le> length (harrays h')"
    by (simp add: prefix_length_le)
  ultimately show ?thesis using assms(2) a by (simp add: valid_slice_def)
qed

lemma slice_elems_extends: "extends h h' \<Longrightarrow> valid_slice h s \<Longrightarrow> slice_elems h' s = slice_elems h s"
  by (simp add: extends_def slice_elems_grow)

lemma map_entries_extends:
  "extends h h' \<Longrightarrow> valid_map h r \<Longrightarrow> map_entries h' r = map_entries h r"
  by (cases r) (simp_all add: map_entries_def valid_map_def extends_def prefix_nth_eq)

lemma header_value_extends:
  assumes "extends h h'" "valid_map h r"
  shows "header_value h' r = header_value h r"
proof -
  have "list_all (\<lambda>(k, s). valid_slice h s) (map_entries h r)"
    using assms(2) by (cases r) (simp_all add: valid_map_def map_entries_def)
  then have "map (\<lambda>(k, s). (k, slice_elems h' s)) (map_entries h r) =
             map (\<lambda>(k, s). (k, slice_elems h s)) (map_entries h r)"
    using assms(1) by (auto simp: list_all_iff slice_elems_extends)
  then show ?thesis using assms by (simp add: header_value_def map_entries_extends)
qed


lemma copy_entry_hmaps:
  "hmaps (copy_entry n k v h) =
     (hmaps h)[n := AList.update k \<lparr>sl_arr = length (harrays h), sl_off = 0, sl_len = sl_len v, sl_cap = sl_len v\<rparr> (hmaps h ! n)]"
  by (simp add: copy_entry_def make_slice_def map_store_def copy_slice_def Let_def)

lemma copy_entry_harrays:
  assumes "valid_slice h v"
  shows "harrays (copy_entry n k v h) = harrays h @ [slice_elems h v]"
proof -
  let ?h1 = "h\<lparr>harrays := harrays h @ [replicate (sl_len v) '''']\<rparr>"
  have ext: "prefix (harrays h) (harrays ?h1)" by simp
  have "slice_elems (map_store n k s ?h1) v = slice_elems ?h1 v" for s
    by (simp add: slice_elems_def map_store_def)
  also have "\<dots> = slice_elems h v" using ext assms by (rule slice_elems_grow)
  finally have e: "slice_elems (map_store n k s ?h1) v = slice_elems h v" for s .
  have l: "length (slice_elems h v) \<le> sl_len v" by (simp add: slice_elems_def)
  show ?thesis
    using l by (simp add: copy_entry_def make_slice_def copy_slice_def Let_def e)
      (simp add: map_store_def)
qed

lemma update_fresh_key: "k \<notin> fst ` set al \<Longrightarrow> AList.update k v al = al @ [(k, v)]"
  by (induction al) auto

lemma length_slice_elems: "valid_slice h v \<Longrightarrow> length (slice_elems h v) = sl_len v"
  by (auto simp: valid_slice_def slice_elems_def)


lemma copy_entry_copying:
  assumes inv: "copying h0 n h" and v: "valid_slice h v" and k: "k \<notin> fst ` set (hmaps h ! n)"
  shows "copying h0 n (copy_entry n k v h)"
    and "map (\<lambda>(j, s). (j, slice_elems (copy_entry n k v h) s)) (hmaps (copy_entry n k v h) ! n) =
         map (\<lambda>(j, s). (j, slice_elems h s)) (hmaps h ! n) @ [(k, slice_elems h v)]"
    and "prefix (harrays h) (harrays (copy_entry n k v h))"
    and "fst ` set (hmaps (copy_entry n k v h) ! n) = insert k (fst ` set (hmaps h ! n))"
proof -
  let ?h' = "copy_entry n k v h"
  let ?s = "\<lparr>sl_arr = length (harrays h), sl_off = 0, sl_len = sl_len v, sl_cap = sl_len v\<rparr>"
  from inv have n: "n < length (hmaps h)" and n0: "length (hmaps h0) \<le> n" and e0: "extends h0 h"
    by (simp_all add: copying_def)
  have hm: "hmaps ?h' = (hmaps h)[n := hmaps h ! n @ [(k, ?s)]]"
    by (simp add: copy_entry_hmaps update_fresh_key [OF k])
  have ha: "harrays ?h' = harrays h @ [slice_elems h v]"
    by (rule copy_entry_harrays [OF v])
  from hm n have at_n: "hmaps ?h' ! n = hmaps h ! n @ [(k, ?s)]" by simp
  have pm: "prefix (hmaps h0) (hmaps ?h')"
    using e0 n0 by (simp add: hm extends_def prefix_list_update_beyond)
  have pa: "prefix (harrays h0) (harrays ?h')"
    using e0 by (simp add: ha extends_def)
  have la: "length (harrays h0) \<le> length (harrays h)"
    using e0 by (simp add: extends_def prefix_length_le)
  have lv: "length (slice_elems h v) \<le> sl_len v" by (simp add: slice_elems_def)
  have old: "list_all (\<lambda>(k, s). length (harrays h0) \<le> sl_arr s \<and> sl_arr s < length (harrays ?h') \<and>
                 sl_off s = 0 \<and> sl_len s \<le> length (harrays ?h' ! sl_arr s)) (hmaps h ! n)"
    using inv by (auto simp: copying_def list_all_iff ha nth_append)
  have lv': "length (slice_elems h v) = sl_len v" by (rule length_slice_elems [OF v])
  show "copying h0 n ?h'"
    unfolding copying_def using pm pa n0 n old la
    by (simp add: extends_def at_n) (simp add: hm ha lv')
  show "prefix (harrays h) (harrays ?h')"
    by (simp add: ha)
  show "fst ` set (hmaps ?h' ! n) = insert k (fst ` set (hmaps h ! n))"
    by (simp add: at_n)
  have "slice_elems ?h' s = slice_elems h s" if "(j, s) \<in> set (hmaps h ! n)" for j s
  proof -
    from that inv have "sl_arr s < length (harrays h)" by (auto simp: copying_def list_all_iff)
    then show ?thesis by (simp add: slice_elems_def ha nth_append)
  qed
  then have "map (\<lambda>(j, s). (j, slice_elems ?h' s)) (hmaps h ! n) =
             map (\<lambda>(j, s). (j, slice_elems h s)) (hmaps h ! n)"
    by auto
  moreover have "slice_elems ?h' ?s = slice_elems h v"
    using lv' by (simp add: slice_elems_def ha)
  ultimately show "map (\<lambda>(j, s). (j, slice_elems ?h' s)) (hmaps ?h' ! n) =
         map (\<lambda>(j, s). (j, slice_elems h s)) (hmaps h ! n) @ [(k, slice_elems h v)]"
    by (simp add: at_n)
qed

lemma copy_entries_copying:
  assumes "copying h0 n h" "list_all (\<lambda>(k, v). valid_slice h v) kvs" "distinct (map fst kvs)"
    and "fst ` set kvs \<inter> fst ` set (hmaps h ! n) = {}"
  shows "copying h0 n (copy_entries n kvs h) \<and>
         map (\<lambda>(j, s). (j, slice_elems (copy_entries n kvs h) s)) (hmaps (copy_entries n kvs h) ! n) =
         map (\<lambda>(j, s). (j, slice_elems h s)) (hmaps h ! n) @ map (\<lambda>(j, v). (j, slice_elems h v)) kvs"
  using assms
proof (induction kvs arbitrary: h)
  case Nil
  then show ?case by simp
next
  case (Cons kv kvs)
  obtain k v where kv: "kv = (k, v)" by (cases kv)
  let ?h1 = "copy_entry n k v h"
  from Cons.prems kv have v: "valid_slice h v" and k: "k \<notin> fst ` set (hmaps h ! n)"
    by auto
  note step = copy_entry_copying [OF Cons.prems(1) v k]
  have valid': "list_all (\<lambda>(k, v). valid_slice ?h1 v) kvs"
    using Cons.prems(2) step(3) by (auto simp: list_all_iff intro: valid_slice_grow)
  have dist': "distinct (map fst kvs)" using Cons.prems(3) by simp
  have disj': "fst ` set kvs \<inter> fst ` set (hmaps ?h1 ! n) = {}"
    using Cons.prems(3,4) kv by (auto simp: step(4))
  have same: "map (\<lambda>(j, v). (j, slice_elems ?h1 v)) kvs = map (\<lambda>(j, v). (j, slice_elems h v)) kvs"
    using Cons.prems(2) step(3) by (auto simp: list_all_iff slice_elems_grow)
  from Cons.IH [OF step(1) valid' dist' disj']
  show ?case by (simp add: kv step(2) same)
qed

lemma copy_headers_separate:
  assumes "valid_map h hdrs" and "copy_headers hdrs h = (n, h1)"
  shows "n = length (hmaps h)" and "separate_from h (MapRef n) h1"
    and "header_value h1 (MapRef n) = header_value h hdrs"
proof -
  let ?h0 = "h\<lparr>hmaps := hmaps h @ [[]]\<rparr>"
  let ?n = "length (hmaps h)"
  from assms(2) have n: "n = ?n" and h1: "h1 = copy_entries ?n (map_entries h hdrs) ?h0"
    by (auto simp: copy_headers_def make_map_def)
  show "n = ?n" by (rule n)
  have inv: "copying h ?n ?h0" by (simp add: copying_def extends_def)
  have val: "list_all (\<lambda>(k, v). valid_slice ?h0 v) (map_entries h hdrs)"
    using assms(1) by (cases hdrs) (auto simp: valid_map_def map_entries_def valid_slice_def list_all_iff)
  have dist: "distinct (map fst (map_entries h hdrs))"
    using assms(1) by (cases hdrs) (auto simp: valid_map_def map_entries_def)
  have disj: "fst ` set (map_entries h hdrs) \<inter> fst ` set (hmaps ?h0 ! ?n) = {}" by simp
  note r = copy_entries_copying [OF inv val dist disj]
  from r have "copying h ?n h1" by (simp add: h1)
  then show "separate_from h (MapRef n) h1"
    by (auto simp: copying_def separate_from_def n list_all_iff)
  have "slice_elems ?h0 = slice_elems h" by (auto simp: slice_elems_def fun_eq_iff)
  with r show "header_value h1 (MapRef n) = header_value h hdrs"
    by (simp add: header_value_def map_entries_def n h1)
qed

lemma separate_from_extends: "separate_from h0 r h \<Longrightarrow> extends h0 h"
  by (simp add: separate_from_def)

lemma local_filterD:
  assumes "local_filter f" "separate_from h0 r h" "f ctx r h = (r', h')"
  shows "separate_from h0 r' h'"
  using assms unfolding local_filter_def
  apply -
  apply (drule spec [of _ ctx])
  apply (drule spec [of _ h0])
  apply (drule spec [of _ r])
  apply (drule spec [of _ h])
  apply simp
  done

lemma apply_header_filters_separate:
  assumes sep: "separate_from h0 n h1"
    and loc: "\<And>f. LogHeadersFilter (cfg ! opts self) = Some f \<Longrightarrow> local_filter f"
    and res: "apply_header_filters cfg self ctx n h1 = (res, h')"
  shows "extends h0 h' \<and> (\<forall>r. res = Inr r \<longrightarrow> separate_from h0 r h')"
proof (cases "LogHeadersFilter (cfg ! opts self)")
  case None
  with sep res show ?thesis
    by (auto simp: apply_header_filters_def FilterHeaders_def separate_from_extends
        split: if_splits)
next
  case (Some f)
  obtain r1 h2 where f1: "f ctx n h1 = (r1, h2)" by (cases "f ctx n h1")
  obtain r2 h3 where f2: "f ctx r1 h2 = (r2, h3)" by (cases "f ctx r1 h2")
  have s1: "separate_from h0 r1 h2" using loc [OF Some] sep f1 by (rule local_filterD)
  have s2: "separate_from h0 r2 h3" using loc [OF Some] s1 f2 by (rule local_filterD)
  from res Some f1 f2 s1 s2 show ?thesis
    by (auto simp: apply_header_filters_def FilterHeaders_def separate_from_extends
        split: if_splits)
qed

lemma prefix_pointwise:
  assumes "length xs \<le> length ys" and "\<And>i. i < length xs \<Longrightarrow> ys ! i = xs ! i"
  shows "prefix xs ys"
proof -
  have "take (length xs) ys = xs"
    using assms by (intro nth_equalityI) simp_all
  then show ?thesis by (metis take_is_prefix)
qed

lemma update_one_array:
  assumes "map_of m k = Some t" and "0 < sl_len t \<or> 0 < sl_cap t"
  shows "\<forall>i < length xs.
           xs[sl_arr t := ys] ! i = xs ! i \<or>
           (\<exists>k t. map_of m k = Some t \<and> sl_arr t = i \<and> (0 < sl_len t \<or> 0 < sl_cap t))"
proof (intro allI impI)
  fix i assume "i < length xs"
  show "xs[sl_arr t := ys] ! i = xs ! i \<or>
        (\<exists>k t. map_of m k = Some t \<and> sl_arr t = i \<and> (0 < sl_len t \<or> 0 < sl_cap t))"
  proof (cases "i = sl_arr t")
    case True
    with assms show ?thesis by blast
  next
    case False
    then show ?thesis by simp
  qed
qed

text \<open>
  What a write through the map at \<open>b\<close> can change: the map object at \<open>b\<close>, and the
  backing array of a slice stored in that map; besides, it may allocate.
\<close>

lemma mutate_effect:
  "length (hmaps (mutate (MapRef b) w h)) = length (hmaps h) \<and>
   (\<forall>a. a \<noteq> b \<longrightarrow> hmaps (mutate (MapRef b) w h) ! a = hmaps h ! a) \<and>
   length (harrays h) \<le> length (harrays (mutate (MapRef b) w h)) \<and>
   (\<forall>i < length (harrays h).
      harrays (mutate (MapRef b) w h) ! i = harrays h ! i \<or>
      (\<exists>k t. map_of (hmaps h ! b) k = Some t \<and> sl_arr t = i \<and> (0 < sl_len t \<or> 0 < sl_cap t)))"
proof (cases w)
  case (SetKey k v)
  then show ?thesis by (simp add: mutate_def map_store_def)
next
  case (DeleteKey k)
  then show ?thesis by (simp add: mutate_def map_delete_def)
next
  case (SetElem k i x)
  show ?thesis
  proof (cases "map_of (hmaps h ! b) k")
    case None
    with SetElem show ?thesis by (simp add: mutate_def)
  next
    case (Some t)
    show ?thesis
    proof (cases "i < sl_len t")
      case True
      then have pos: "0 < sl_len t" by simp
      have "harrays (mutate (MapRef b) w h) =
              (harrays h)[sl_arr t := (harrays h ! sl_arr t)[sl_off t + i := x]]"
        and "hmaps (mutate (MapRef b) w h) = hmaps h"
        using SetElem Some True by (simp_all add: mutate_def slice_store_def)
      then show ?thesis using update_one_array [OF Some, of "harrays h"] pos by simp
    next
      case False
      with SetElem Some show ?thesis by (simp add: mutate_def slice_store_def)
    qed
  qed
next
  case (Append k x)
  show ?thesis
  proof (cases "map_of (hmaps h ! b) k")
    case None
    with Append show ?thesis
      by (auto simp: mutate_def append_slice_def map_store_def nth_append)
  next
    case (Some t)
    show ?thesis
    proof (cases "sl_len t < sl_cap t")
      case True
      then have pos: "0 < sl_cap t" by simp
      have "harrays (mutate (MapRef b) w h) =
              (harrays h)[sl_arr t := (harrays h ! sl_arr t)[sl_off t + sl_len t := x]]"
        and "hmaps (mutate (MapRef b) w h) =
              (hmaps h)[b := AList.update k (t\<lparr>sl_len := sl_len t + 1\<rparr>) (hmaps h ! b)]"
        using Append Some True by (simp_all add: mutate_def append_slice_def map_store_def)
      then show ?thesis using update_one_array [OF Some, of "harrays h"] pos by simp
    next
      case False
      with Append Some show ?thesis
        by (auto simp: mutate_def append_slice_def map_store_def nth_append)
    qed
  qed
qed

lemma mutate_separate_extends:
  assumes "separate_from h0 r h"
  shows "extends h0 (mutate r w h)"
proof (cases r)
  case NilMap
  with assms show ?thesis by (simp add: mutate_def separate_from_def)
next
  case (MapRef a)
  with assms have e: "extends h0 h" and a: "length (hmaps h0) \<le> a"
    and fr: "list_all (\<lambda>(k, s). length (harrays h0) \<le> sl_arr s \<and> sl_arr s < length (harrays h))
               (hmaps h ! a)"
    by (simp_all add: separate_from_def)
  let ?h' = "mutate (MapRef a) w h"
  note eff = mutate_effect [of a w h]
  from e have lm: "length (hmaps h0) \<le> length (hmaps h)" and la: "length (harrays h0) \<le> length (harrays h)"
    by (simp_all add: extends_def prefix_length_le)
  have "prefix (hmaps h0) (hmaps ?h')"
  proof (rule prefix_pointwise)
    show "length (hmaps h0) \<le> length (hmaps ?h')" using eff lm by simp
    fix i assume i: "i < length (hmaps h0)"
    with a have "i \<noteq> a" by simp
    with eff have "hmaps ?h' ! i = hmaps h ! i" by simp
    also have "\<dots> = hmaps h0 ! i" using e i by (simp add: extends_def prefix_nth_eq)
    finally show "hmaps ?h' ! i = hmaps h0 ! i" .
  qed
  moreover have "prefix (harrays h0) (harrays ?h')"
  proof (rule prefix_pointwise)
    show "length (harrays h0) \<le> length (harrays ?h')" using eff la by simp
    fix i assume i: "i < length (harrays h0)"
    have "\<not> (\<exists>k t. map_of (hmaps h ! a) k = Some t \<and> sl_arr t = i \<and> (0 < sl_len t \<or> 0 < sl_cap t))"
    proof
      assume "\<exists>k t. map_of (hmaps h ! a) k = Some t \<and> sl_arr t = i \<and> (0 < sl_len t \<or> 0 < sl_cap t)"
      then obtain k t where "map_of (hmaps h ! a) k = Some t" and t: "sl_arr t = i" by blast
      then have "(k, t) \<in> set (hmaps h ! a)" by (simp add: map_of_SomeD)
      with fr have "length (harrays h0) \<le> sl_arr t" by (auto simp: list_all_iff)
      with t i show False by simp
    qed
    moreover from i la have "i < length (harrays h)" by simp
    ultimately have "harrays ?h' ! i = harrays h ! i" using eff by blast
    also have "\<dots> = harrays h0 ! i" using e i by (simp add: extends_def prefix_nth_eq)
    finally show "harrays ?h' ! i = harrays h0 ! i" .
  qed
  ultimately show ?thesis by (simp add: extends_def MapRef)
qed

lemma mutate_live_keeps_separate:
  assumes sep: "separate_from h0 r h" and live: "valid_map h0 hdrs"
  shows "header_value (mutate hdrs w h) r = header_value h r"
proof (cases hdrs)
  case NilMap
  then show ?thesis by (simp add: mutate_def)
next
  case (MapRef b)
  with live have b: "b < length (hmaps h0)"
    and vs: "list_all (\<lambda>(k, s). valid_slice h0 s) (hmaps h0 ! b)"
    by (simp_all add: valid_map_def)
  from sep have e: "extends h0 h" by (rule separate_from_extends)
  then have hb: "hmaps h ! b = hmaps h0 ! b" using b by (simp add: extends_def prefix_nth_eq)
  let ?h' = "mutate (MapRef b) w h"
  note eff = mutate_effect [of b w h]
  have maps_same: "map_entries ?h' r = map_entries h r"
  proof (cases r)
    case NilMap
    then show ?thesis by (simp add: map_entries_def)
  next
    case (MapRef a)
    with sep have "length (hmaps h0) \<le> a" by (simp add: separate_from_def)
    with b have "a \<noteq> b" by simp
    with eff show ?thesis using MapRef by (simp add: map_entries_def)
  qed
  have elems_same: "slice_elems ?h' s = slice_elems h s"
    if "(j, s) \<in> set (map_entries h r)" for j s
  proof -
    from that sep have fresh: "length (harrays h0) \<le> sl_arr s" and alloc: "sl_arr s < length (harrays h)"
      by (cases r; auto simp: map_entries_def separate_from_def list_all_iff)+
    have "\<not> (\<exists>k t. map_of (hmaps h ! b) k = Some t \<and> sl_arr t = sl_arr s \<and>
                 (0 < sl_len t \<or> 0 < sl_cap t))"
    proof
      assume "\<exists>k t. map_of (hmaps h ! b) k = Some t \<and> sl_arr t = sl_arr s \<and>
                 (0 < sl_len t \<or> 0 < sl_cap t)"
      then obtain k t where kt: "map_of (hmaps h ! b) k = Some t" and t: "sl_arr t = sl_arr s"
        and pos: "0 < sl_len t \<or> 0 < sl_cap t" by blast
      from kt have "(k, t) \<in> set (hmaps h0 ! b)" unfolding hb by (rule map_of_SomeD)
      with vs have "valid_slice h0 t" by (auto simp: list_all_iff)
      with pos have "sl_arr t < length (harrays h0)" by (auto simp: valid_slice_def)
      with fresh t show False by simp
    qed
    with eff alloc have "harrays ?h' ! sl_arr s = harrays h ! sl_arr s" by blast
    then show ?thesis by (simp add: slice_elems_def)
  qed
  show ?thesis
    unfolding header_value_def MapRef maps_same using elems_same by auto
qed

lemma delete_key_local:
  assumes "separate_from h0 r h"
  shows "separate_from h0 r (mutate r (DeleteKey k) h)"
proof (cases r)
  case NilMap
  with assms show ?thesis by (simp add: mutate_def)
next
  case (MapRef a)
  have e: "extends h0 (mutate r (DeleteKey k) h)" using assms by (rule mutate_separate_extends)
  from assms MapRef have a: "length (hmaps h0) \<le> a" "a < length (hmaps h)"
    and fr: "list_all (\<lambda>(k, s). length (harrays h0) \<le> sl_arr s \<and> sl_arr s < length (harrays h))
               (hmaps h ! a)"
    by (simp_all add: separate_from_def)
  have "set (AList.delete k (hmaps h ! a)) \<subseteq> set (hmaps h ! a)"
    by (auto simp: AList.delete_eq)
  with fr have "list_all (\<lambda>(k, s). length (harrays h0) \<le> sl_arr s \<and> sl_arr s < length (harrays h))
                  (AList.delete k (hmaps h ! a))"
    by (auto simp: list_all_iff)
  with e a MapRef show ?thesis
    by (simp add: separate_from_def mutate_def map_delete_def)
qed

lemma local_redact_authorization: "local_filter redact_authorization"
  by (simp add: local_filter_def redact_authorization_def delete_key_local)

section \<open>Option structs: what \<^verbatim>\<open>SetLogger\<close> leaves alone\<close>

lemma SetLogger_keeps_filters:
  "LogBodyFilter (cfg[b := (cfg ! b)\<lparr>Logger := lg\<rparr>] ! a) = LogBodyFilter (cfg ! a)"
  "LogHeadersFilter (cfg[b := (cfg ! b)\<lparr>Logger := lg\<rparr>] ! a) = LogHeadersFilter (cfg ! a)"
  "Disable (cfg[b := (cfg ! b)\<lparr>Logger := lg\<rparr>] ! a) = Disable (cfg ! a)"
proof -
  have "cfg[b := (cfg ! b)\<lparr>Logger := lg\<rparr>] ! a = (cfg ! a)\<lparr>Logger := lg\<rparr> \<or>
        cfg[b := (cfg ! b)\<lparr>Logger := lg\<rparr>] ! a = cfg ! a"
    by (cases "a = b"; cases "b < length cfg") (simp_all add: list_update_beyond)
  then show "LogBodyFilter (cfg[b := (cfg ! b)\<lparr>Logger := lg\<rparr>] ! a) = LogBodyFilter (cfg ! a)"
    and "LogHeadersFilter (cfg[b := (cfg ! b)\<lparr>Logger := lg\<rparr>] ! a) = LogHeadersFilter (cfg ! a)"
    and "Disable (cfg[b := (cfg ! b)\<lparr>Logger := lg\<rparr>] ! a) = Disable (cfg ! a)"
    by auto
qed

lemma SetLogger_keeps_filter_steps:
  "filterBody (cfg[b := (cfg ! b)\<lparr>Logger := lg\<rparr>]) w = filterBody cfg w"
  "filterHeaders (cfg[b := (cfg ! b)\<lparr>Logger := lg\<rparr>]) w = filterHeaders cfg w"
  by (auto simp: fun_eq_iff filterBody_def filterHeaders_def apply_header_filters_def
      SetLogger_keeps_filters split: sum.splits prod.splits)

lemma Wrap_reads:
  assumes "cfg' ! opts w = cfg ! opts w" "filterBody cfg' w = filterBody cfg w"
    and "filterHeaders cfg' w = filterHeaders cfg w"
  shows "Wrap lib cfg' (Some w) next ctx s = Wrap lib cfg (Some w) next ctx s"
proof -
  have "Wrap_after_request_log lib cfg' w next ctx li ev s1 =
        Wrap_after_request_log lib cfg w next ctx li ev s1" for li ev s1
    by (auto simp: Wrap_after_request_log_def assms split: sum.splits prod.splits option.splits)
  then show ?thesis
    by (auto simp: Wrap_def Let_def assms split: sum.splits prod.splits option.splits)
qed

lemma SetLogger_keeps_Wrap:
  assumes "opts w \<noteq> mw_opts self"
  shows "Wrap lib (snd (SetLogger cfg self lg)) (Some w) next ctx s = Wrap lib cfg (Some w) next ctx s"
  unfolding SetLogger_def snd_conv
  using assms by (intro Wrap_reads SetLogger_keeps_filter_steps) simp

section \<open>A complete logged request\<close>

text \<open>
  When the body copy succeeds, both filter steps return on the request and on the response
  and the downstream handler returns, the wrapped handler makes the request log call,
  runs the handler on the world with the store the request's header copy left, and makes
  the response log call on the same record extended by the response.
\<close>

lemma Wrap_enabled_run:
  assumes "Logger (cfg ! opts w) = Some l" "\<not> Disable (cfg ! opts w)" "BodyCopy s = Inr body0"
    and "filterBody cfg w ctx body0 = Inr body"
    and "filterHeaders cfg w ctx (req_Header s) (store s) = (Inr hdrs, h1)"
    and "next ctx (s\<lparr>store := h1\<rparr>) = (None, s2)"
    and "filterBody cfg w ctx (ResponseCopy s2) = Inr body2"
    and "filterHeaders cfg w ctx (writer_Header s2) (store s2) = (Inr hdrs2, h3)"
    and "li = \<lparr>request = \<lparr>rq_route = \<lparr>li_method = req_Method s, li_route = route_FullPath s,
                   li_path = EscapedPath lib (req_URL s), li_query = Query lib (req_URL s)\<rparr>,
                 rq_headers = hdrs, rq_body = body\<rparr>, response = None\<rparr>"
  shows "Wrap lib cfg (Some w) next ctx s =
           ([LogDebug l ctx ''Received request:'' (TrimSpace lib (Encode lib li h1)),
             CallNext ctx,
             LogDebug l ctx ''Sent response:''
               (TrimSpace lib (Encode lib
                  (li\<lparr>response := Some \<lparr>rs_status = writer_Status s2, rs_headers = hdrs2,
                                        rs_body = body2\<rparr>\<rparr>) h3))],
            None, s2\<lparr>store := h3\<rparr>)"
  using assms by (simp add: Wrap_def Wrap_after_request_log_def CallLogDebug_def Let_def)

section \<open>The claims\<close>

subsection \<open>C1: with both filters set, the per-invocation filter runs twice\<close>

text \<open>
  Claim C1. On a wrapper whose base options and per-invocation options both carry a
  filter of the same kind, the logged body is the per-invocation filter applied to the
  body and then applied again to the result, and the logged headers are the
  per-invocation filter applied twice, starting from the copy of the header map. The base
  filter (\<open>g\<close>, \<open>g'\<close>) is only tested for presence and never called, so it does not
  contribute to what is logged.
\<close>

theorem both_filters_apply_invocation_filter_twice:
  "(LogBodyFilter (cfg ! opts self) = Some f \<and> LogBodyFilter (cfg ! base_opts self) = Some g \<longrightarrow>
      filterBody cfg self ctx body = Inr (f ctx (f ctx body))) \<and>
   (LogHeadersFilter (cfg ! opts self) = Some f' \<and> LogHeadersFilter (cfg ! base_opts self) = Some g' \<longrightarrow>
      filterHeaders cfg self ctx hdrs h =
        (case copy_headers hdrs h of (n, h1) \<Rightarrow>
           case f' ctx (MapRef n) h1 of (r1, h2) \<Rightarrow>
             case f' ctx r1 h2 of (r2, h3) \<Rightarrow> (Inr r2, h3)))"
  by (simp add: filterBody_def FilterBody_def filterHeaders_def apply_header_filters_def
      FilterHeaders_def split: prod.splits)

theorem both_filters_witness:
  "filterBody [ex_base_filters, ex_override] ex_wrapper () ''body'' = Inr ''body!!'' \<and>
   fst (filterHeaders [ex_base_filters, ex_override] ex_wrapper () (MapRef 0) ex_heap) = Inr (MapRef 1) \<and>
   header_value (snd (filterHeaders [ex_base_filters, ex_override] ex_wrapper () (MapRef 0) ex_heap))
     (MapRef 1) = [(''Accept'', [''text/html'', ''*/*''])]"
  using both_filters_apply_invocation_filter_twice
    [of "[ex_base_filters, ex_override]" ex_wrapper exclaim mask "()" "''body''"
        redact_authorization drop_headers "MapRef 0" ex_heap]
  by (simp add: filterBody_def FilterBody_def filterHeaders_def apply_header_filters_def FilterHeaders_def copy_headers_def
      make_map_def map_entries_def copy_entry_def make_slice_def map_store_def copy_slice_def
      slice_elems_def header_value_def
      redact_authorization_def mutate_def map_delete_def ex_base_filters_def ex_override_def ex_wrapper_def
      exclaim_def mask_def drop_headers_def ex_heap_def Let_def)

subsection \<open>C2: the filter steps with a base filter and no per-invocation filter\<close>

text \<open>
  Claim C2 states that the body-filter step and the headers-filter step never panic,
  whichever filters are present, and are the identity when the per-invocation filter is
  absent. Both steps call \<^verbatim>\<open>self.opts\<close>' filter under the test of \<^verbatim>\<open>self.base_opts\<close>'
  filter. On the wrapper that \<^verbatim>\<open>NewWrapper\<close> builds without an override for a middleware
  whose base options carry filters, the per-invocation filters are nil and the base ones
  are not: both steps panic with a nil dereference.
\<close>

theorem filter_steps_panic_on_base_filter_alone:
  "NewWrapper [ex_base_filters] \<lparr>mw_opts = 0\<rparr> () [] =
     (Some ex_wrapper, [ex_base_filters, ex_base_plain]) \<and>
   filterBody [ex_base_filters, ex_base_plain] ex_wrapper () ''secret'' = Inl NilDereference \<and>
   fst (filterHeaders [ex_base_filters, ex_base_plain] ex_wrapper () (MapRef 0) ex_heap) =
     Inl NilDereference"
  by (simp add: NewWrapper_def zero_opts_def filterBody_def FilterBody_def filterHeaders_def apply_header_filters_def FilterHeaders_def copy_headers_def
      make_map_def map_entries_def copy_entry_def make_slice_def map_store_def copy_slice_def
      slice_elems_def header_value_def
      ex_base_filters_def ex_base_plain_def ex_wrapper_def mask_def drop_headers_def ex_heap_def)

subsection \<open>C3: the options a new wrapper works with\<close>

text \<open>
  Claim C3 states that an override's unset logger is replaced by the base logger, so that
  every wrapper returned has a log sink. \<^verbatim>\<open>NewWrapper\<close> keeps the override as it is: for
  an override without a logger, on a middleware whose base logger is \<^verbatim>\<open>stdout\<close>, the
  wrapper returned is not nil, its logger is nil, and a request through it makes no log
  call.
\<close>

theorem NewWrapper_override_without_logger:
  "NewWrapper [ex_base_plain, ex_override_no_logger] \<lparr>mw_opts = 0\<rparr> () [OptsPtr (Some 1)] =
     (Some ex_wrapper, [ex_base_plain, ex_override_no_logger]) \<and>
   Logger ([ex_base_plain, ex_override_no_logger] ! base_opts ex_wrapper) = Some ''stdout'' \<and>
   Logger ([ex_base_plain, ex_override_no_logger] ! opts ex_wrapper) = None \<and>
   fst (Wrap ex_lib [ex_base_plain, ex_override_no_logger] (Some ex_wrapper) ex_next () ex_world) =
     [CallNext ()]"
  by (simp add: NewWrapper_def Wrap_def ex_base_plain_def ex_override_no_logger_def
      ex_wrapper_def ex_next_def)

text \<open>
  Claim C3 as amended. Without an override (no argument holds a
  \<^verbatim>\<open>*RequestLoggerOpts\<close>, or the first one that does holds the nil pointer) the
  wrapper works with a new struct that carries the base
  logger, no filter and no disable flag. With an override the wrapper works with the
  override itself, unchanged: unset filters stay unset and an unset logger stays unset.
  The logger of a wrapper returned is therefore the base logger when there is no override
  and the override's logger otherwise; and the base logger of a middleware that
  \<^verbatim>\<open>NewMiddleware\<close> returns is never nil.
\<close>

theorem NewWrapper_effective_options:
  "(resolve_opts args = None \<longrightarrow>
      NewWrapper cfg self ctx args =
        (Some \<lparr>opts = length cfg, base_opts = mw_opts self\<rparr>,
         cfg @ [\<lparr>LogBodyFilter = None, LogHeadersFilter = None,
                 Logger = Logger (cfg ! mw_opts self), Disable = False\<rparr>])) \<and>
   (\<forall>a. resolve_opts args = Some a \<longrightarrow>
      NewWrapper cfg self ctx args =
        (if Disable (cfg ! a) then None else Some \<lparr>opts = a, base_opts = mw_opts self\<rparr>, cfg)) \<and>
   (\<forall>w cfg1. NewWrapper cfg self ctx args = (Some w, cfg1) \<longrightarrow>
      Logger (cfg1 ! opts w) =
        (case resolve_opts args of
           None \<Rightarrow> Logger (cfg ! mw_opts self)
         | Some a \<Rightarrow> Logger (cfg ! a))) \<and>
   ((\<forall>a. p = Some a \<longrightarrow> a < length cfg0) \<longrightarrow>
      Logger (snd (NewMiddleware dflt cfg0 p) ! mw_opts (fst (NewMiddleware dflt cfg0 p))) \<noteq> None)"
  by (auto simp: NewWrapper_def NewMiddleware_def zero_opts_def nth_append
      split: option.splits if_splits)

theorem NewWrapper_effective_options_witness:
  "NewMiddleware ''stdout'' [] None = (\<lparr>mw_opts = 0\<rparr>, [ex_base_plain]) \<and>
   NewWrapper [ex_base_plain] \<lparr>mw_opts = 0\<rparr> () [] = (Some ex_wrapper, [ex_base_plain, ex_base_plain]) \<and>
   Logger ([ex_base_plain, ex_base_plain] ! opts ex_wrapper) = Some ''stdout'' \<and>
   NewWrapper [ex_base_plain, ex_override] \<lparr>mw_opts = 0\<rparr> () [OtherArg, OptsPtr (Some 1)] =
     (Some ex_wrapper, [ex_base_plain, ex_override]) \<and>
   Logger ([ex_base_plain, ex_override] ! opts ex_wrapper) = Some ''audit''"
  using NewWrapper_effective_options [of "[]" "[ex_base_plain]" "\<lparr>mw_opts = 0\<rparr>" "()" None "[]" "''stdout''"]
    NewWrapper_effective_options
      [of "[OtherArg, OptsPtr (Some 1)]" "[ex_base_plain, ex_override]" "\<lparr>mw_opts = 0\<rparr>" "()" None "[]" "''stdout''"]
  by (simp add: NewWrapper_def NewMiddleware_def zero_opts_def ex_base_plain_def
      ex_override_def ex_wrapper_def)

subsection \<open>C4: a request on the wrapper of C2\<close>

text \<open>
  Claim C4 states that a request on a wrapper with a logger, not disabled, whose body
  copy succeeds, makes exactly two log calls, one before and one after the downstream
  handler. On the wrapper of C2 (base body filter, no override) the body copy succeeds,
  the body-filter step panics with the nil dereference, and the request ends there: no
  log call, the handler never called. Lemma \<open>Wrap_enabled_run\<close> is the run the claim
  describes, for requests on which the filter steps return.
\<close>

theorem base_filter_alone_aborts_request_unlogged:
  "NewWrapper [ex_base_filters] \<lparr>mw_opts = 0\<rparr> () [] =
     (Some ex_wrapper, [ex_base_filters, ex_base_plain]) \<and>
   Logger ([ex_base_filters, ex_base_plain] ! opts ex_wrapper) = Some ''stdout'' \<and>
   Disable ([ex_base_filters, ex_base_plain] ! opts ex_wrapper) = False \<and>
   BodyCopy ex_world = Inr ''ping'' \<and>
   Wrap ex_lib [ex_base_filters, ex_base_plain] (Some ex_wrapper) ex_next () ex_world =
     ([], Some NilDereference, ex_world)"
  by (simp add: NewWrapper_def zero_opts_def Wrap_def Wrap_after_request_log_def CallLogDebug_def filterBody_def FilterBody_def
      ex_base_filters_def ex_base_plain_def ex_wrapper_def ex_world_def mask_def)

subsection \<open>C5: no logger or disabled\<close>

text \<open>
  Claim C5. On a wrapper whose logger is nil or whose disable flag is set, the wrapped
  handler calls the downstream handler once, with the context it was given, makes no log
  call, and its outcome and the world it leaves are those of the downstream handler run
  on its own.
\<close>

theorem no_logger_or_disabled_runs_handler_only:
  "Logger (cfg ! opts w) = None \<or> Disable (cfg ! opts w) \<Longrightarrow>
   Wrap lib cfg (Some w) next ctx s = ([CallNext ctx], next ctx s)"
  by (auto simp add: Wrap_def split: prod.splits)

theorem no_logger_witness:
  "Logger ([ex_base_plain, ex_override_no_logger] ! opts ex_wrapper) = None \<and>
   Wrap ex_lib [ex_base_plain, ex_override_no_logger] (Some ex_wrapper) ex_next () ex_world =
     ([CallNext ()], ex_next () ex_world)"
  using no_logger_or_disabled_runs_handler_only
    [of "[ex_base_plain, ex_override_no_logger]" ex_wrapper ex_lib ex_next "()" ex_world]
  by (simp add: ex_override_no_logger_def ex_wrapper_def)

subsection \<open>C6: the nil wrapper\<close>

text \<open>
  Claim C6. \<^verbatim>\<open>NewWrapper\<close> returns nil exactly when the override it resolved carries the
  disable flag (the struct made when there is no override never does). What callers do
  with nil is not code of this package; the second part records why they must not
  intercept with it: the handler \<^verbatim>\<open>Wrap\<close> builds from the nil wrapper panics on every
  request, before the downstream handler and without a log call.
\<close>

theorem NewWrapper_nil_iff_disabled:
  "(fst (NewWrapper cfg self ctx args) = None \<longleftrightarrow>
      (case resolve_opts args of None \<Rightarrow> False | Some a \<Rightarrow> Disable (cfg ! a))) \<and>
   Wrap lib cfg' None next ctx' s = ([], Some NilDereference, s)"
  by (simp add: NewWrapper_def Wrap_def zero_opts_def split: option.splits)

theorem NewWrapper_nil_iff_disabled_witness:
  "fst (NewWrapper [ex_base_plain, ex_override_disabled] \<lparr>mw_opts = 0\<rparr> () [OptsPtr (Some 1)]) = None \<and>
   fst (NewWrapper [ex_base_plain, ex_override_disabled] \<lparr>mw_opts = 0\<rparr> () []) =
     Some \<lparr>opts = 2, base_opts = 0\<rparr>"
  using NewWrapper_nil_iff_disabled
    [of "[ex_base_plain, ex_override_disabled]" "\<lparr>mw_opts = 0\<rparr>" "()" "[OptsPtr (Some 1)]"
        ex_lib "[]" ex_next "()" ex_world]
  by (simp add: NewWrapper_def zero_opts_def ex_base_plain_def ex_override_disabled_def)

subsection \<open>C7: the body copy fails\<close>

text \<open>
  Claim C7. On a wrapper with a logger and not disabled, when the body copy returns an
  error the request panics with the message \<^verbatim>\<open>Couldn't read body: \<close> followed by the
  rendering of that error; the downstream handler is not called, no log call is made, and
  the world is left as it was.
\<close>

theorem body_copy_failure_panics_before_anything:
  "Logger (cfg ! opts w) \<noteq> None \<Longrightarrow> \<not> Disable (cfg ! opts w) \<Longrightarrow> BodyCopy s = Inl err \<Longrightarrow>
   Wrap lib cfg (Some w) next ctx s =
     ([], Some (Panic (''Couldn't read body: '' @ Sprintf_v lib err)), s)"
  by (simp add: Wrap_def)

theorem body_copy_failure_witness:
  "Wrap ex_lib [ex_base_plain, ex_override] (Some ex_wrapper) ex_next ()
     (ex_world\<lparr>BodyCopy := Inl ''unexpected EOF''\<rparr>) =
   ([], Some (Panic ''Couldn't read body: unexpected EOF''), ex_world\<lparr>BodyCopy := Inl ''unexpected EOF''\<rparr>)"
  using body_copy_failure_panics_before_anything
    [of "[ex_base_plain, ex_override]" ex_wrapper "ex_world\<lparr>BodyCopy := Inl ''unexpected EOF''\<rparr>"
        "''unexpected EOF''" ex_lib ex_next "()"]
  by (simp add: ex_override_def ex_wrapper_def ex_lib_def)

subsection \<open>C8: the logged headers are a separate copy\<close>

text \<open>
  Claim C8 states, for every filter, that the live header map is never mutated and that
  writes through the returned map and through the live map never affect each other.
  \<^verbatim>\<open>filterHeaders\<close> hands the copy to the per-invocation filter and returns whatever that
  filter returns. With the filter \<open>redact_live\<close>, which works on the live map instead
  of the copy, the live header map has lost \<^verbatim>\<open>Authorization\<close> after the call, the map
  returned is the live map itself, and an element stored through the returned map shows
  in the live headers.
\<close>

theorem filterHeaders_filter_on_live_map:
  "header_value ex_heap (MapRef 0) =
     [(''Authorization'', [''Bearer xyz'']), (''Accept'', [''text/html'', ''*/*''])] \<and>
   fst (filterHeaders [ex_base_plain, ex_override_on_live] ex_wrapper () (MapRef 0) ex_heap) =
     Inr (MapRef 0) \<and>
   header_value
     (snd (filterHeaders [ex_base_plain, ex_override_on_live] ex_wrapper () (MapRef 0) ex_heap))
     (MapRef 0) = [(''Accept'', [''text/html'', ''*/*''])] \<and>
   header_value
     (mutate (MapRef 0) (SetElem ''Accept'' 0 ''application/json'')
        (snd (filterHeaders [ex_base_plain, ex_override_on_live] ex_wrapper () (MapRef 0) ex_heap)))
     (MapRef 0) = [(''Accept'', [''application/json'', ''*/*''])] \<and>
   \<not> local_filter redact_live"
proof -
  have c0: "header_value ex_heap (MapRef 0) =
     [(''Authorization'', [''Bearer xyz'']), (''Accept'', [''text/html'', ''*/*''])]"
    by (simp add: header_value_def map_entries_def slice_elems_def ex_heap_def)
  have c1: "fst (filterHeaders [ex_base_plain, ex_override_on_live] ex_wrapper () (MapRef 0) ex_heap) =
     Inr (MapRef 0)"
    by (simp add: filterHeaders_def apply_header_filters_def FilterHeaders_def copy_headers_def
        make_map_def map_entries_def copy_entry_def make_slice_def map_store_def copy_slice_def
        slice_elems_def map_delete_def redact_live_def ex_base_plain_def ex_override_on_live_def
        ex_wrapper_def ex_heap_def)
  have c2: "header_value
     (snd (filterHeaders [ex_base_plain, ex_override_on_live] ex_wrapper () (MapRef 0) ex_heap))
     (MapRef 0) = [(''Accept'', [''text/html'', ''*/*''])]"
    by (simp add: filterHeaders_def apply_header_filters_def FilterHeaders_def copy_headers_def
        make_map_def map_entries_def copy_entry_def make_slice_def map_store_def copy_slice_def
        slice_elems_def header_value_def map_delete_def redact_live_def ex_base_plain_def
        ex_override_on_live_def ex_wrapper_def ex_heap_def)
  have c3: "header_value
     (mutate (MapRef 0) (SetElem ''Accept'' 0 ''application/json'')
        (snd (filterHeaders [ex_base_plain, ex_override_on_live] ex_wrapper () (MapRef 0) ex_heap)))
     (MapRef 0) = [(''Accept'', [''application/json'', ''*/*''])]"
    by (simp add: filterHeaders_def apply_header_filters_def FilterHeaders_def copy_headers_def
        make_map_def map_entries_def copy_entry_def make_slice_def map_store_def copy_slice_def
        slice_elems_def header_value_def map_delete_def mutate_def slice_store_def redact_live_def
        ex_base_plain_def ex_override_on_live_def ex_wrapper_def ex_heap_def)
  have c4: "\<not> local_filter redact_live"
  proof
    assume "local_filter redact_live"
    moreover have "separate_from ex_heap NilMap ex_heap"
      by (simp add: separate_from_def extends_def)
    moreover have "redact_live () NilMap ex_heap = (MapRef 0, map_delete 0 ''Authorization'' ex_heap)"
      by (simp add: redact_live_def)
    ultimately have "separate_from ex_heap (MapRef 0) (map_delete 0 ''Authorization'' ex_heap)"
      by (rule local_filterD)
    then show False by (simp add: separate_from_def ex_heap_def)
  qed
  from c0 c1 c2 c3 c4 show ?thesis by (intro conjI)
qed

text \<open>
  Claim C8 as amended. \<^verbatim>\<open>filterHeaders\<close> first copies the live header map, key by key and
  value sequence by value sequence, into a new map object whose slices lie on new backing
  arrays: the copy reads like the live map, shares no storage with anything that existed
  before, the live headers read as before, and a write through the copy (setting or
  deleting a key, storing an element of a value, appending to a value) or through the
  live map does not change what the other reads. The filters then run on that copy. When
  the per-invocation filter is local (handed a map that shares no storage with an older
  store, it leaves that store alone and returns a map that shares none of it) the same
  holds of the whole step: every map object and backing array that existed before the
  call is unchanged after it, also when the step panics, and writes through the returned
  map and through the live map do not affect each other.
\<close>

theorem filterHeaders_logs_separate_copy:
  assumes live: "valid_map h hdrs"
  shows "(\<exists>n h1. copy_headers hdrs h = (n, h1) \<and> separate_from h (MapRef n) h1 \<and>
            header_value h1 (MapRef n) = header_value h hdrs \<and>
            header_value h1 hdrs = header_value h hdrs \<and>
            (\<forall>m. header_value (mutate (MapRef n) m h1) hdrs = header_value h hdrs \<and>
                 header_value (mutate hdrs m h1) (MapRef n) = header_value h1 (MapRef n)) \<and>
            filterHeaders cfg self ctx hdrs h = apply_header_filters cfg self ctx (MapRef n) h1) \<and>
         ((\<forall>f. LogHeadersFilter (cfg ! opts self) = Some f \<longrightarrow> local_filter f) \<longrightarrow>
          (case filterHeaders cfg self ctx hdrs h of
             (res, h') \<Rightarrow>
               extends h h' \<and> header_value h' hdrs = header_value h hdrs \<and>
               (\<forall>r m. res = Inr r \<longrightarrow>
                  separate_from h r h' \<and>
                  header_value (mutate r m h') hdrs = header_value h hdrs \<and>
                  header_value (mutate hdrs m h') r = header_value h' r)))"
proof -
  obtain n h1 where c: "copy_headers hdrs h = (n, h1)" by (cases "copy_headers hdrs h")
  note cp = copy_headers_separate [OF live c]
  have fh: "filterHeaders cfg self ctx hdrs h = apply_header_filters cfg self ctx (MapRef n) h1"
    by (simp add: filterHeaders_def c)
  have k1: "header_value h1 hdrs = header_value h hdrs"
    using separate_from_extends [OF cp(2)] live by (rule header_value_extends)
  have w1: "header_value (mutate (MapRef n) m h1) hdrs = header_value h hdrs" for m
    using mutate_separate_extends [OF cp(2)] live by (rule header_value_extends)
  have w2: "header_value (mutate hdrs m h1) (MapRef n) = header_value h1 (MapRef n)" for m
    using cp(2) live by (rule mutate_live_keeps_separate)
  have first: "\<exists>n h1. copy_headers hdrs h = (n, h1) \<and> separate_from h (MapRef n) h1 \<and>
            header_value h1 (MapRef n) = header_value h hdrs \<and>
            header_value h1 hdrs = header_value h hdrs \<and>
            (\<forall>m. header_value (mutate (MapRef n) m h1) hdrs = header_value h hdrs \<and>
                 header_value (mutate hdrs m h1) (MapRef n) = header_value h1 (MapRef n)) \<and>
            filterHeaders cfg self ctx hdrs h = apply_header_filters cfg self ctx (MapRef n) h1"
    using c cp(2,3) k1 w1 w2 fh by blast
  have second: "case filterHeaders cfg self ctx hdrs h of
             (res, h') \<Rightarrow>
               extends h h' \<and> header_value h' hdrs = header_value h hdrs \<and>
               (\<forall>r m. res = Inr r \<longrightarrow>
                  separate_from h r h' \<and>
                  header_value (mutate r m h') hdrs = header_value h hdrs \<and>
                  header_value (mutate hdrs m h') r = header_value h' r)"
    if loc: "\<forall>f. LogHeadersFilter (cfg ! opts self) = Some f \<longrightarrow> local_filter f"
  proof -
    obtain res h' where r: "apply_header_filters cfg self ctx (MapRef n) h1 = (res, h')"
      by (cases "apply_header_filters cfg self ctx (MapRef n) h1")
    from loc have loc': "\<And>f. LogHeadersFilter (cfg ! opts self) = Some f \<Longrightarrow> local_filter f"
      by simp
    from apply_header_filters_separate [OF cp(2) loc' r]
    have e: "extends h h'" and sep: "\<And>r. res = Inr r \<Longrightarrow> separate_from h r h'"
      by simp_all
    have keep: "header_value h' hdrs = header_value h hdrs"
      using e live by (rule header_value_extends)
    have m1: "header_value (mutate r m h') hdrs = header_value h hdrs" if "res = Inr r" for r m
      using mutate_separate_extends [OF sep [OF that]] live by (rule header_value_extends)
    have m2: "header_value (mutate hdrs m h') r = header_value h' r" if "res = Inr r" for r m
      using sep [OF that] live by (rule mutate_live_keeps_separate)
    show ?thesis using e keep sep m1 m2 by (simp add: fh r)
  qed
  from first second show ?thesis by blast
qed

theorem filterHeaders_logs_separate_copy_witness:
  "valid_map ex_heap (MapRef 0) \<and>
   fst (filterHeaders [ex_base_plain, ex_override] ex_wrapper () (MapRef 0) ex_heap) = Inr (MapRef 1) \<and>
   header_value (snd (filterHeaders [ex_base_plain, ex_override] ex_wrapper () (MapRef 0) ex_heap))
     (MapRef 1) = [(''Accept'', [''text/html'', ''*/*''])] \<and>
   header_value (snd (filterHeaders [ex_base_plain, ex_override] ex_wrapper () (MapRef 0) ex_heap))
     (MapRef 0) = [(''Authorization'', [''Bearer xyz'']), (''Accept'', [''text/html'', ''*/*''])] \<and>
   header_value
     (mutate (MapRef 1) (SetElem ''Accept'' 0 ''application/json'')
        (snd (filterHeaders [ex_base_plain, ex_override] ex_wrapper () (MapRef 0) ex_heap)))
     (MapRef 0) = [(''Authorization'', [''Bearer xyz'']), (''Accept'', [''text/html'', ''*/*''])] \<and>
   header_value
     (mutate (MapRef 0) (SetElem ''Accept'' 0 ''application/json'')
        (snd (filterHeaders [ex_base_plain, ex_override] ex_wrapper () (MapRef 0) ex_heap)))
     (MapRef 1) = [(''Accept'', [''text/html'', ''*/*''])] \<and>
   header_value
     (mutate (MapRef 0) (Append ''Accept'' ''image/png'')
        (snd (filterHeaders [ex_base_plain, ex_override] ex_wrapper () (MapRef 0) ex_heap)))
     (MapRef 0) =
     [(''Authorization'', [''Bearer xyz'']), (''Accept'', [''text/html'', ''*/*'', ''image/png''])] \<and>
   header_value
     (mutate (MapRef 0) (Append ''Accept'' ''image/png'')
        (snd (filterHeaders [ex_base_plain, ex_override] ex_wrapper () (MapRef 0) ex_heap)))
     (MapRef 1) = [(''Accept'', [''text/html'', ''*/*''])]"
proof -
  have live: "valid_map ex_heap (MapRef 0)"
    by (simp add: valid_map_def valid_slice_def ex_heap_def)
  have loc: "\<forall>f. LogHeadersFilter ([ex_base_plain, ex_override] ! opts ex_wrapper) = Some f \<longrightarrow>
               local_filter f"
    by (simp add: ex_override_def ex_wrapper_def local_redact_authorization)
  have c1: "fst (filterHeaders [ex_base_plain, ex_override] ex_wrapper () (MapRef 0) ex_heap) =
              Inr (MapRef 1)"
    by (simp add: filterHeaders_def apply_header_filters_def FilterHeaders_def copy_headers_def
      make_map_def map_entries_def copy_entry_def make_slice_def map_store_def copy_slice_def
      slice_elems_def header_value_def
      redact_authorization_def mutate_def map_delete_def slice_store_def append_slice_def
      ex_base_plain_def ex_override_def ex_wrapper_def ex_heap_def)
  have c2: "header_value (snd (filterHeaders [ex_base_plain, ex_override] ex_wrapper () (MapRef 0) ex_heap))
     (MapRef 1) = [(''Accept'', [''text/html'', ''*/*''])]"
    by (simp add: filterHeaders_def apply_header_filters_def FilterHeaders_def copy_headers_def
      make_map_def map_entries_def copy_entry_def make_slice_def map_store_def copy_slice_def
      slice_elems_def header_value_def
      redact_authorization_def mutate_def map_delete_def slice_store_def append_slice_def
      ex_base_plain_def ex_override_def ex_wrapper_def ex_heap_def)
  have c3: "header_value (snd (filterHeaders [ex_base_plain, ex_override] ex_wrapper () (MapRef 0) ex_heap))
     (MapRef 0) = [(''Authorization'', [''Bearer xyz'']), (''Accept'', [''text/html'', ''*/*''])]"
    by (simp add: filterHeaders_def apply_header_filters_def FilterHeaders_def copy_headers_def
      make_map_def map_entries_def copy_entry_def make_slice_def map_store_def copy_slice_def
      slice_elems_def header_value_def
      redact_authorization_def mutate_def map_delete_def slice_store_def append_slice_def
      ex_base_plain_def ex_override_def ex_wrapper_def ex_heap_def)
  have c4: "header_value
     (mutate (MapRef 1) (SetElem ''Accept'' 0 ''application/json'')
        (snd (filterHeaders [ex_base_plain, ex_override] ex_wrapper () (MapRef 0) ex_heap)))
     (MapRef 0) = [(''Authorization'', [''Bearer xyz'']), (''Accept'', [''text/html'', ''*/*''])]"
    by (simp add: filterHeaders_def apply_header_filters_def FilterHeaders_def copy_headers_def
      make_map_def map_entries_def copy_entry_def make_slice_def map_store_def copy_slice_def
      slice_elems_def header_value_def
      redact_authorization_def mutate_def map_delete_def slice_store_def append_slice_def
      ex_base_plain_def ex_override_def ex_wrapper_def ex_heap_def)
  have c5: "header_value
     (mutate (MapRef 0) (SetElem ''Accept'' 0 ''application/json'')
        (snd (filterHeaders [ex_base_plain, ex_override] ex_wrapper () (MapRef 0) ex_heap)))
     (MapRef 1) = [(''Accept'', [''text/html'', ''*/*''])]"
    by (simp add: filterHeaders_def apply_header_filters_def FilterHeaders_def copy_headers_def
      make_map_def map_entries_def copy_entry_def make_slice_def map_store_def copy_slice_def
      slice_elems_def header_value_def
      redact_authorization_def mutate_def map_delete_def slice_store_def append_slice_def
      ex_base_plain_def ex_override_def ex_wrapper_def ex_heap_def)
  have c6: "header_value
     (mutate (MapRef 0) (Append ''Accept'' ''image/png'')
        (snd (filterHeaders [ex_base_plain, ex_override] ex_wrapper () (MapRef 0) ex_heap)))
     (MapRef 0) =
     [(''Authorization'', [''Bearer xyz'']), (''Accept'', [''text/html'', ''*/*'', ''image/png''])]"
    by (simp add: filterHeaders_def apply_header_filters_def FilterHeaders_def copy_headers_def
      make_map_def map_entries_def copy_entry_def make_slice_def map_store_def copy_slice_def
      slice_elems_def header_value_def
      redact_authorization_def mutate_def map_delete_def slice_store_def append_slice_def
      ex_base_plain_def ex_override_def ex_wrapper_def ex_heap_def)
  have c7: "header_value
     (mutate (MapRef 0) (Append ''Accept'' ''image/png'')
        (snd (filterHeaders [ex_base_plain, ex_override] ex_wrapper () (MapRef 0) ex_heap)))
     (MapRef 1) = [(''Accept'', [''text/html'', ''*/*''])]"
    by (simp add: filterHeaders_def apply_header_filters_def FilterHeaders_def copy_headers_def
      make_map_def map_entries_def copy_entry_def make_slice_def map_store_def copy_slice_def
      slice_elems_def header_value_def
      redact_authorization_def mutate_def map_delete_def slice_store_def append_slice_def
      ex_base_plain_def ex_override_def ex_wrapper_def ex_heap_def)
  from filterHeaders_logs_separate_copy
    [OF live, of "[ex_base_plain, ex_override]" ex_wrapper "()"] loc live c1 c2 c3 c4 c5 c6 c7
  show ?thesis by (intro conjI)
qed

subsection \<open>C9: path and query are those of the URL at entry\<close>

text \<open>
  Claim C9. Every log call of a wrapped request, before or after the downstream handler,
  carries the encoding of a record whose \<^verbatim>\<open>path\<close> and \<^verbatim>\<open>query\<close> are the escaped path and
  the query of the URL the request had when it entered the wrapped handler, whatever the
  downstream handler does to its view of the URL.
\<close>

theorem logged_path_and_query_are_entry_url:
  "\<forall>ev \<in> set (fst (Wrap lib cfg self next ctx s)).
     case ev of
       CallNext c \<Rightarrow> True
     | LogDebug l c p m \<Rightarrow>
         \<exists>li h. m = TrimSpace lib (Encode lib li h) \<and>
           li_path (rq_route (request li)) = EscapedPath lib (req_URL s) \<and>
           li_query (rq_route (request li)) = Query lib (req_URL s)"
  by (auto simp: Wrap_def Wrap_after_request_log_def CallLogDebug_def Let_def
      split: sum.splits prod.splits option.splits if_splits event.splits)

theorem logged_path_and_query_witness:
  "fst (Wrap ex_lib [ex_base_plain, ex_override] (Some ex_wrapper) ex_next () ex_world) =
     [LogDebug ''audit'' () ''Received request:'' ''GET /users/42?active=true Accept ping!'',
      CallNext (),
      LogDebug ''audit'' () ''Sent response:''
        ''GET /users/42?active=true Accept ping! -> not found!''] \<and>
   req_URL (snd (snd (Wrap ex_lib [ex_base_plain, ex_override] (Some ex_wrapper) ex_next () ex_world))) =
     (''/admin'', ''active=false'') \<and>
   (\<exists>li h. ''GET /users/42?active=true Accept ping! -> not found!'' =
              TrimSpace ex_lib (Encode ex_lib li h) \<and>
            li_path (rq_route (request li)) = ''/users/42'' \<and>
            li_query (rq_route (request li)) = ''active=true'')"
proof -
  have c1: "fst (Wrap ex_lib [ex_base_plain, ex_override] (Some ex_wrapper) ex_next () ex_world) =
     [LogDebug ''audit'' () ''Received request:'' ''GET /users/42?active=true Accept ping!'',
      CallNext (),
      LogDebug ''audit'' () ''Sent response:''
        ''GET /users/42?active=true Accept ping! -> not found!'']"
    by (simp add: Wrap_def Wrap_after_request_log_def CallLogDebug_def filterBody_def FilterBody_def
      filterHeaders_def apply_header_filters_def FilterHeaders_def copy_headers_def
      make_map_def map_entries_def copy_entry_def make_slice_def map_store_def copy_slice_def
      slice_elems_def header_value_def
      redact_authorization_def mutate_def map_delete_def ex_lib_def ex_encode_def ex_trim_def ex_world_def ex_next_def ex_heap_def
      ex_base_plain_def ex_override_def ex_wrapper_def exclaim_def Let_def)
  have c2: "req_URL (snd (snd (Wrap ex_lib [ex_base_plain, ex_override] (Some ex_wrapper) ex_next ()
              ex_world))) = (''/admin'', ''active=false'')"
    by (simp add: Wrap_def Wrap_after_request_log_def CallLogDebug_def filterBody_def FilterBody_def
      filterHeaders_def apply_header_filters_def FilterHeaders_def copy_headers_def
      make_map_def map_entries_def copy_entry_def make_slice_def map_store_def copy_slice_def
      slice_elems_def header_value_def
      redact_authorization_def mutate_def map_delete_def ex_lib_def ex_encode_def ex_trim_def ex_world_def ex_next_def ex_heap_def
      ex_base_plain_def ex_override_def ex_wrapper_def exclaim_def Let_def)
  have u: "EscapedPath ex_lib (req_URL ex_world) = ''/users/42''"
    "Query ex_lib (req_URL ex_world) = ''active=true''"
    by (simp_all add: ex_lib_def ex_world_def)
  from logged_path_and_query_are_entry_url
    [of ex_lib "[ex_base_plain, ex_override]" "Some ex_wrapper" ex_next "()" ex_world]
  have c3: "\<exists>li h. ''GET /users/42?active=true Accept ping! -> not found!'' =
              TrimSpace ex_lib (Encode ex_lib li h) \<and>
            li_path (rq_route (request li)) = ''/users/42'' \<and>
            li_query (rq_route (request li)) = ''active=true''"
    unfolding c1 u by simp
  from c1 c2 c3 show ?thesis by (intro conjI)
qed

subsection \<open>C10: a wrapper keeps the logger it was created with\<close>

text \<open>
  Claim C10. A wrapper created without an override works with a struct of its own that
  holds the base logger of that moment. A later \<^verbatim>\<open>SetLogger\<close> on the middleware changes
  the base options and nothing the wrapper reads: its logger is still the one captured,
  and a request through it runs exactly as before.
\<close>

theorem wrapper_keeps_logger_after_SetLogger:
  assumes "mw_opts self < length cfg" and "resolve_opts args = None"
  shows "\<exists>w cfg1. NewWrapper cfg self ctx args = (Some w, cfg1) \<and>
           Logger (cfg1 ! opts w) = Logger (cfg ! mw_opts self) \<and>
           Logger (snd (SetLogger cfg1 self lg) ! mw_opts self) = lg \<and>
           Logger (snd (SetLogger cfg1 self lg) ! opts w) = Logger (cfg ! mw_opts self) \<and>
           Wrap lib (snd (SetLogger cfg1 self lg)) (Some w) next ctx' s =
             Wrap lib cfg1 (Some w) next ctx' s"
proof -
  let ?w = "\<lparr>opts = length cfg, base_opts = mw_opts self\<rparr>"
  let ?cfg1 = "cfg @ [zero_opts\<lparr>Logger := Logger (cfg ! mw_opts self)\<rparr>]"
  have nw: "NewWrapper cfg self ctx args = (Some ?w, ?cfg1)"
    using assms(2) by (simp add: NewWrapper_def zero_opts_def)
  have ne: "opts ?w \<noteq> mw_opts self" using assms(1) by simp
  have l1: "Logger (?cfg1 ! opts ?w) = Logger (cfg ! mw_opts self)" by simp
  have l2: "Logger (snd (SetLogger ?cfg1 self lg) ! mw_opts self) = lg"
    using assms(1) by (simp add: SetLogger_def nth_append)
  have l3: "Logger (snd (SetLogger ?cfg1 self lg) ! opts ?w) = Logger (cfg ! mw_opts self)"
    using assms(1) by (simp add: SetLogger_def)
  note l4 = SetLogger_keeps_Wrap [OF ne, of lib ?cfg1 lg "next" ctx' s]
  from nw l1 l2 l3 l4 show ?thesis by (intro exI conjI)
qed

theorem wrapper_keeps_logger_witness:
  "NewWrapper [ex_base_plain] \<lparr>mw_opts = 0\<rparr> () [] = (Some ex_wrapper, [ex_base_plain, ex_base_plain]) \<and>
   snd (SetLogger [ex_base_plain, ex_base_plain] \<lparr>mw_opts = 0\<rparr> (Some ''syslog'')) =
     [ex_base_plain\<lparr>Logger := Some ''syslog''\<rparr>, ex_base_plain] \<and>
   fst (Wrap ex_lib (snd (SetLogger [ex_base_plain, ex_base_plain] \<lparr>mw_opts = 0\<rparr> (Some ''syslog'')))
          (Some ex_wrapper) ex_next () ex_world) =
     [LogDebug ''stdout'' () ''Received request:'' ''GET /users/42?active=true Authorization Accept ping'',
      CallNext (),
      LogDebug ''stdout'' () ''Sent response:''
        ''GET /users/42?active=true Authorization Accept ping -> not found'']"
proof -
  have c1: "NewWrapper [ex_base_plain] \<lparr>mw_opts = 0\<rparr> () [] =
              (Some ex_wrapper, [ex_base_plain, ex_base_plain])"
    by (simp add: NewWrapper_def zero_opts_def SetLogger_def Wrap_def Wrap_after_request_log_def CallLogDebug_def filterBody_def FilterBody_def
      filterHeaders_def apply_header_filters_def FilterHeaders_def copy_headers_def
      make_map_def map_entries_def copy_entry_def make_slice_def map_store_def copy_slice_def
      slice_elems_def header_value_def
      ex_lib_def ex_encode_def ex_trim_def ex_world_def ex_next_def ex_heap_def ex_base_plain_def ex_wrapper_def)
  have c2: "snd (SetLogger [ex_base_plain, ex_base_plain] \<lparr>mw_opts = 0\<rparr> (Some ''syslog'')) =
              [ex_base_plain\<lparr>Logger := Some ''syslog''\<rparr>, ex_base_plain]"
    by (simp add: NewWrapper_def zero_opts_def SetLogger_def Wrap_def Wrap_after_request_log_def CallLogDebug_def filterBody_def FilterBody_def
      filterHeaders_def apply_header_filters_def FilterHeaders_def copy_headers_def
      make_map_def map_entries_def copy_entry_def make_slice_def map_store_def copy_slice_def
      slice_elems_def header_value_def
      ex_lib_def ex_encode_def ex_trim_def ex_world_def ex_next_def ex_heap_def ex_base_plain_def ex_wrapper_def)
  have c3: "fst (Wrap ex_lib (snd (SetLogger [ex_base_plain, ex_base_plain] \<lparr>mw_opts = 0\<rparr> (Some ''syslog'')))
          (Some ex_wrapper) ex_next () ex_world) =
     [LogDebug ''stdout'' () ''Received request:'' ''GET /users/42?active=true Authorization Accept ping'',
      CallNext (),
      LogDebug ''stdout'' () ''Sent response:''
        ''GET /users/42?active=true Authorization Accept ping -> not found'']"
    by (simp add: NewWrapper_def zero_opts_def SetLogger_def Wrap_def Wrap_after_request_log_def CallLogDebug_def filterBody_def FilterBody_def
      filterHeaders_def apply_header_filters_def FilterHeaders_def copy_headers_def
      make_map_def map_entries_def copy_entry_def make_slice_def map_store_def copy_slice_def
      slice_elems_def header_value_def
      ex_lib_def ex_encode_def ex_trim_def ex_world_def ex_next_def ex_heap_def ex_base_plain_def ex_wrapper_def Let_def)
  have valid: "mw_opts \<lparr>mw_opts = 0\<rparr> < length [ex_base_plain]" by simp
  have none: "resolve_opts [] = None" by simp
  from wrapper_keeps_logger_after_SetLogger
    [OF valid none, of "()" "Some ''syslog''" ex_lib ex_next "()" ex_world]
  show ?thesis
    apply -
    apply (intro conjI)
      apply (rule c1)
     apply (rule c2)
    apply (rule c3)
    done
qed

end
